theory Spec2Isabelle
  imports Main
begin

section \<open>FileModule: external references, dependency pass, instantiation\<close>

text \<open>
  A shallow embedding of \<^verbatim>\<open>src/FileModule.cc\<close>. The collaborators the file calls but
  does not define (Boost.Filesystem, \<^verbatim>\<open>find_valid_path\<close>, \<^verbatim>\<open>StatCache\<close>, \<^verbatim>\<open>ModuleCache\<close>,
  \<^verbatim>\<open>FontCache\<close>, the parser, the evaluation context) are parameters of the model; their
  observable side effects (font registrations, printed messages, calls of
  \<^verbatim>\<open>ModuleCache::evaluate\<close>) are collected in an event list, and the state of
  \<^verbatim>\<open>ModuleCache\<close> is threaded explicitly.
\<close>

subsection \<open>Data\<close>

text \<open>\<^verbatim>\<open>time_t\<close>: a signed integer. The code only compares such values.\<close>

type_synonym time_t = int

text \<open>
  What can leave a function other than by \<^verbatim>\<open>return\<close>: a C++ exception, or the abort of a
  failed \<^verbatim>\<open>assert\<close>. \<^verbatim>\<open>EvaluationException\<close> stands for the class and its subclasses and
  carries \<^verbatim>\<open>what()\<close>; \<^verbatim>\<open>OutOfRange\<close> is what \<^verbatim>\<open>at\<close> throws on a missing key.
\<close>

datatype exn =
    EvaluationException string
  | OutOfRange
  | OtherException string
  | AssertionFailure

text \<open>The two kinds of external reference, each with its \<^verbatim>\<open>filename\<close> as written.\<close>

datatype ExternalNode = UseNode string | IncludeNode string

text \<open>
  The calls that act on the collaborators, in the order the code performs them. \<^verbatim>\<open>'m\<close> is
  the type of module pointers (\<^verbatim>\<open>FileModule *\<close>, \<open>None\<close> for \<^verbatim>\<open>nullptr\<close>).
\<close>

datatype 'm event =
    RegisterFontFile string
      \<comment> \<open>\<^verbatim>\<open>FontCache::instance()->register_font_file(filename)\<close>\<close>
  | ErrorCantReadFont string
      \<comment> \<open>\<^verbatim>\<open>PRINTB("ERROR: Can't read font with path '%s'", filename)\<close>\<close>
  | WarningCantOpenInclude string
      \<comment> \<open>\<^verbatim>\<open>PRINTB("WARNING: Can't open include file '%s'.", localpath)\<close>\<close>
  | CantOpenInclude string
      \<comment> \<open>\<^verbatim>\<open>PRINTB("Can't open include file '%s'!\n", fullname)\<close>\<close>
  | CantParseInclude string
      \<comment> \<open>\<^verbatim>\<open>PRINTB("Can't parse include file '%s'!\n", fullname)\<close>\<close>
  | CallEvaluate string
      \<comment> \<open>\<^verbatim>\<open>ModuleCache::instance()->evaluate(filename, newmodule)\<close> is called\<close>
  | DebugChanged string "'m option" "'m option"
      \<comment> \<open>\<^verbatim>\<open>PRINTDB("  %s: %p -> %p", filename % oldmodule % newmodule)\<close>\<close>
  | DebugUnchanged string "'m option"
      \<comment> \<open>\<^verbatim>\<open>PRINTDB("  %s: %p", filename % oldmodule)\<close>\<close>
  | WarningFailedToCompile string
      \<comment> \<open>\<^verbatim>\<open>PRINTB_NOCACHE("WARNING: Failed to compile library '%s'.", filename)\<close>\<close>

text \<open>
  \<^verbatim>\<open>externalDict\<close> is declared in \<^verbatim>\<open>FileModule.h\<close>, which is not part of the sources
  at hand. The code uses \<^verbatim>\<open>insert\<close> of a pair, \<^verbatim>\<open>at\<close> and \<^verbatim>\<open>erase\<close> by key, so it is a
  standard map with unique keys. It is modelled as an association list, in the order in
  which the container iterates over its entries; the data invariant is that the keys
  are distinct. The container decides that order (by key for \<^verbatim>\<open>std::map\<close>, by hash bucket
  for \<^verbatim>\<open>std::unordered_map\<close>): it is the collaborator \<open>key_order\<close> below.
\<close>

type_synonym dict = "(string \<times> ExternalNode) list"

text \<open>The fields of \<^verbatim>\<open>FileModule\<close>; \<^verbatim>\<open>'s\<close> is the type of \<^verbatim>\<open>LocalScope\<close>.\<close>

record 's FileModule =
  is_handling_dependencies :: bool
  path :: string
  filename :: string
  externalList :: "ExternalNode list"
  externalDict :: dict
  scope :: 's

text \<open>
  The collaborators of the dependency code. The file system is fixed during one call;
  \<^verbatim>\<open>'c\<close> is the state of \<^verbatim>\<open>ModuleCache\<close>.
  \<^item> \<open>is_absolute\<close>: \<^verbatim>\<open>fs::path(f).is_absolute()\<close>;
  \<^item> \<open>find_valid_path\<close>: \<^verbatim>\<open>find_valid_path(sourcepath, localpath)\<close>, the empty path when
    nothing is found;
  \<^item> \<open>is_regular\<close>: \<^verbatim>\<open>fs::is_regular(f)\<close>;
  \<^item> \<open>open_file\<close>: \<^verbatim>\<open>std::ifstream ifs(f)\<close> and the text read from it, \<open>None\<close> when the
    stream is not open;
  \<^item> \<open>parse\<close>: the truth value returned by \<^verbatim>\<open>parse(inc_mod, text, fullname, false)\<close>;
  \<^item> \<open>stat\<close>: \<^verbatim>\<open>StatCache::stat(f, st)\<close>, \<open>Some st_mtime\<close> when it returns 0;
  \<^item> \<open>isCached\<close>, \<open>lookup\<close>: the queries of \<^verbatim>\<open>ModuleCache\<close>;
  \<^item> \<open>evaluate\<close>: \<^verbatim>\<open>ModuleCache::evaluate(filename, newmodule)\<close>: the new state of the
    cache, and either the exception it raises or the time it returns with the module
    it stores in \<^verbatim>\<open>newmodule\<close>. It may come back to the module at hand only through
    \<^verbatim>\<open>handleDependencies\<close>, which returns at once while the guard is set;
  \<^item> \<open>key_order\<close>: the order in which the map of \<^verbatim>\<open>FileModule.h\<close> iterates after an
    insertion, as a rearrangement of its keys; the argument lists the keys in the order
    before the insertion, with the new key last.
\<close>

record ('c, 'm) collaborators =
  is_absolute :: "string \<Rightarrow> bool"
  find_valid_path :: "string \<Rightarrow> string \<Rightarrow> string"
  is_regular :: "string \<Rightarrow> bool"
  open_file :: "string \<Rightarrow> string option"
  parse :: "string \<Rightarrow> string \<Rightarrow> bool"
  stat :: "string \<Rightarrow> time_t option"
  isCached :: "'c \<Rightarrow> string \<Rightarrow> bool"
  lookup :: "'c \<Rightarrow> string \<Rightarrow> 'm option"
  evaluate :: "'c \<Rightarrow> string \<Rightarrow> (exn + time_t \<times> 'm option) \<times> 'c"
  key_order :: "string list \<Rightarrow> string list"

subsection \<open>The map operations used on \<^verbatim>\<open>externalDict\<close>\<close>

text \<open>
  \<^verbatim>\<open>insert({k, v})\<close>: no effect when the key is present. Otherwise the pair is added, and
  the entries stand in the order \<open>ko\<close> gives to their keys. A list that is no rearrangement
  of the keys is no order of the container: the new pair then goes to the end.
\<close>

definition dict_insert :: "(string list \<Rightarrow> string list) \<Rightarrow> string \<times> ExternalNode \<Rightarrow> dict \<Rightarrow> dict" where
  "dict_insert ko kv d =
     (if fst kv \<in> set (map fst d) then d
      else
        (let x = d @ [kv]; ks = ko (map fst x)
         in if length ks = length x \<and> set ks = set (map fst x)
            then map (\<lambda>k. (k, case map_of x k of Some v \<Rightarrow> v | None \<Rightarrow> snd kv)) ks
            else x))"

text \<open>\<^verbatim>\<open>at(k)\<close>: throws \<^verbatim>\<open>std::out_of_range\<close> when the key is missing.\<close>

definition dict_at :: "dict \<Rightarrow> string \<Rightarrow> exn + ExternalNode" where
  "dict_at d k = (case map_of d k of None \<Rightarrow> Inl OutOfRange | Some v \<Rightarrow> Inr v)"

text \<open>\<^verbatim>\<open>erase(k)\<close>.\<close>

definition dict_erase :: "string \<Rightarrow> dict \<Rightarrow> dict" where
  "dict_erase k d = filter (\<lambda>kv. fst kv \<noteq> k) d"

subsection \<open>Paths and extensions\<close>

text \<open>
  \<^verbatim>\<open>fs::path(filename).extension()\<close> in the generic path format: the part
  of the last path element from its last dot on, empty when the element has no dot or is
  \<^verbatim>\<open>.\<close> or \<^verbatim>\<open>..\<close>.
\<close>

definition path_filename :: "string \<Rightarrow> string" where
  "path_filename p = rev (takeWhile (\<lambda>c. c \<noteq> CHR ''/'') (rev p))"

definition path_extension :: "string \<Rightarrow> string" where
  "path_extension p =
     (let name = path_filename p in
      if name = ''.'' \<or> name = ''..'' \<or> CHR ''.'' \<notin> set name then []
      else CHR ''.'' # rev (takeWhile (\<lambda>c. c \<noteq> CHR ''.'') (rev name)))"

text \<open>\<^verbatim>\<open>boost::algorithm::to_lower_copy\<close> in the classic locale: A-Z become a-z.\<close>

definition to_lower_char :: "char \<Rightarrow> char" where
  "to_lower_char c =
     (case map_of (zip ''ABCDEFGHIJKLMNOPQRSTUVWXYZ'' ''abcdefghijklmnopqrstuvwxyz'') c of
        Some l \<Rightarrow> l
      | None \<Rightarrow> c)"

definition to_lower_copy :: "string \<Rightarrow> string" where
  "to_lower_copy s = map to_lower_char s"

subsection \<open>Construction and registration\<close>

definition new_FileModule :: "string \<Rightarrow> string \<Rightarrow> 's \<Rightarrow> 's FileModule" where
  "new_FileModule p f sc =
     \<lparr>is_handling_dependencies = False, path = p, filename = f,
      externalList = [], externalDict = [], scope = sc\<rparr>"

definition addUseNode :: "string \<Rightarrow> 's FileModule \<Rightarrow> 's FileModule" where
  "addUseNode f fm = fm\<lparr>externalList := externalList fm @ [UseNode f]\<rparr>"

definition addIncludeNode :: "string \<Rightarrow> 's FileModule \<Rightarrow> 's FileModule" where
  "addIncludeNode f fm = fm\<lparr>externalList := externalList fm @ [IncludeNode f]\<rparr>"

subsection \<open>\<^verbatim>\<open>resolveUseNodes\<close>\<close>

definition is_font_ext :: "string \<Rightarrow> bool" where
  "is_font_ext fname =
     (let extraw = path_extension fname; ext = to_lower_copy extraw
      in ext = ''.otf'' \<or> ext = ''.ttf'')"

text \<open>
  The loop over \<^verbatim>\<open>externalList\<close>: the dictionary is updated, the effects are listed.
  The loop also computes \<^verbatim>\<open>fullpath = find_valid_path(this->path, filename)\<close> and never
  uses it: what is tested, registered and inserted is \<^verbatim>\<open>filename\<close>, the path as written.
\<close>

fun resolveUseNodes_loop ::
  "('c, 'm) collaborators \<Rightarrow> ExternalNode list \<Rightarrow> dict \<Rightarrow> dict \<times> 'm event list" where
  "resolveUseNodes_loop env [] d = (d, [])"
| "resolveUseNodes_loop env (IncludeNode f # rest) d = resolveUseNodes_loop env rest d"
| "resolveUseNodes_loop env (UseNode fname # rest) d =
     (if is_font_ext fname then
        (let ev = (if is_regular env fname then RegisterFontFile fname
                   else ErrorCantReadFont fname);
             r = resolveUseNodes_loop env rest d
         in (fst r, ev # snd r))
      else resolveUseNodes_loop env rest
             (dict_insert (key_order env) (fname, UseNode fname) d))"

definition resolveUseNodes ::
  "('c, 'm) collaborators \<Rightarrow> 's FileModule \<Rightarrow> 's FileModule \<times> 'm event list" where
  "resolveUseNodes env fm =
     (let r = resolveUseNodes_loop env (externalList fm) (externalDict fm)
      in (fm\<lparr>externalDict := fst r\<rparr>, snd r))"

subsection \<open>\<^verbatim>\<open>resolveIncludeNodes\<close>\<close>

text \<open>
  The loop changes no field; it prints. \<^verbatim>\<open>continue\<close> goes on with the rest of the list,
  \<^verbatim>\<open>return\<close> ends the loop.
\<close>

fun resolveIncludeNodes_loop ::
  "('c, 'm) collaborators \<Rightarrow> string \<Rightarrow> ExternalNode list \<Rightarrow> 'm event list" where
  "resolveIncludeNodes_loop env p [] = []"
| "resolveIncludeNodes_loop env p (UseNode f # rest) = resolveIncludeNodes_loop env p rest"
| "resolveIncludeNodes_loop env p (IncludeNode localpath # rest) =
     (let fullpath = find_valid_path env p localpath in
      if fullpath = [] then
        WarningCantOpenInclude localpath # resolveIncludeNodes_loop env p rest
      else
        (case open_file env fullpath of
           None \<Rightarrow> [CantOpenInclude fullpath]
         | Some content \<Rightarrow>
             if \<not> parse env content fullpath then [CantParseInclude fullpath]
             else resolveIncludeNodes_loop env p rest))"

definition resolveIncludeNodes ::
  "('c, 'm) collaborators \<Rightarrow> 's FileModule \<Rightarrow> 's FileModule \<times> 'm event list" where
  "resolveIncludeNodes env fm = (fm, resolveIncludeNodes_loop env (path fm) (externalList fm))"

subsection \<open>\<^verbatim>\<open>resolveExternals\<close>\<close>

definition resolveExternals ::
  "('c, 'm) collaborators \<Rightarrow> 's FileModule \<Rightarrow> 's FileModule \<times> 'm event list" where
  "resolveExternals env fm =
     (let r1 = resolveIncludeNodes env fm;
          r2 = resolveUseNodes env (fst r1)
      in (fst r2, snd r1 @ snd r2))"

subsection \<open>\<^verbatim>\<open>includeModified\<close> and \<^verbatim>\<open>includesChanged\<close>\<close>

text \<open>The argument is the \<^verbatim>\<open>filename\<close> field of the \<^verbatim>\<open>IncludeNode\<close>.\<close>

definition includeModified :: "('c, 'm) collaborators \<Rightarrow> string \<Rightarrow> time_t" where
  "includeModified env node_filename =
     (case stat env node_filename of Some st_mtime \<Rightarrow> st_mtime | None \<Rightarrow> 0)"

fun includesChanged_loop ::
  "('c, 'm) collaborators \<Rightarrow> ExternalNode list \<Rightarrow> time_t \<Rightarrow> time_t" where
  "includesChanged_loop env [] latest = latest"
| "includesChanged_loop env (UseNode f # rest) latest = includesChanged_loop env rest latest"
| "includesChanged_loop env (IncludeNode f # rest) latest =
     (let mtime = includeModified env f
      in includesChanged_loop env rest (if mtime > latest then mtime else latest))"

definition includesChanged :: "('c, 'm) collaborators \<Rightarrow> 's FileModule \<Rightarrow> time_t" where
  "includesChanged env fm = includesChanged_loop env (externalList fm) 0"

subsection \<open>\<^verbatim>\<open>handleDependencies\<close>\<close>

text \<open>
  Lines 164 to 179: the file name to look up, \<^verbatim>\<open>wasmissing\<close>, \<^verbatim>\<open>found\<close>, and the pair
  appended to \<^verbatim>\<open>updates\<close> (if any).
\<close>

definition locate ::
  "('c, 'm) collaborators \<Rightarrow> string \<Rightarrow> string \<Rightarrow> string \<times> bool \<times> bool \<times> (string \<times> string) list" where
  "locate env p key =
     (if \<not> is_absolute env key then
        (let fullpath = find_valid_path env p key in
         if fullpath \<noteq> [] then (fullpath, True, True, [(key, fullpath)])
         else (key, True, False, []))
      else (key, False, True, []))"

text \<open>Lines 187 to 199: what is printed after \<^verbatim>\<open>evaluate\<close> has returned.\<close>

definition report ::
  "string \<Rightarrow> bool \<Rightarrow> bool \<Rightarrow> 'm option \<Rightarrow> 'm option \<Rightarrow> 'm event list" where
  "report fname wasmissing wascached oldmodule newmodule =
     (let changed = (newmodule \<noteq> None \<and> newmodule \<noteq> oldmodule) in
      (if changed then [DebugChanged fname oldmodule newmodule]
       else [DebugUnchanged fname oldmodule]) @
      (if newmodule = None \<and> \<not> wascached \<and> \<not> wasmissing
       then [WarningFailedToCompile fname] else []))"

text \<open>
  The loop over \<^verbatim>\<open>externalDict\<close> (lines 163 to 201). The result is the exception that
  ended the loop (if any), \<^verbatim>\<open>updates\<close>, \<^verbatim>\<open>latest\<close>, the state of the cache and the events.
\<close>

fun dependencies_loop ::
  "('c, 'm) collaborators \<Rightarrow> string \<Rightarrow> dict \<Rightarrow> (string \<times> string) list \<Rightarrow> time_t \<Rightarrow> 'c \<Rightarrow>
     exn option \<times> (string \<times> string) list \<times> time_t \<times> 'c \<times> 'm event list" where
  "dependencies_loop env p [] updates latest c = (None, updates, latest, c, [])"
| "dependencies_loop env p (externalEntry # rest) updates latest c =
     (case locate env p (fst externalEntry) of
        (fname, wasmissing, found, upd) \<Rightarrow>
          if found then
            (let wascached = isCached env c fname;
                 oldmodule = lookup env c fname
             in case evaluate env c fname of
                  (Inl e, c') \<Rightarrow> (Some e, updates @ upd, latest, c', [CallEvaluate fname])
                | (Inr (mtime, newmodule), c') \<Rightarrow>
                    (case dependencies_loop env p rest (updates @ upd)
                            (if mtime > latest then mtime else latest) c' of
                       (x, updates', latest', c'', evs) \<Rightarrow>
                         (x, updates', latest', c'',
                          CallEvaluate fname #
                          report fname wasmissing wascached oldmodule newmodule @ evs)))
          else dependencies_loop env p rest (updates @ upd) latest c)"

text \<open>Lines 205 to 208: the located names are reinserted.\<close>

fun apply_updates ::
  "(string list \<Rightarrow> string list) \<Rightarrow> (string \<times> string) list \<Rightarrow> dict \<Rightarrow> exn option \<times> dict" where
  "apply_updates ko [] d = (None, d)"
| "apply_updates ko (files # rest) d =
     (case dict_at d (fst files) of
        Inl e \<Rightarrow> (Some e, d)
      | Inr node \<Rightarrow>
          apply_updates ko rest (dict_erase (fst files) (dict_insert ko (snd files, node) d)))"

text \<open>
  The whole function: what it returns or raises, the module afterwards, the cache
  afterwards, the events.
\<close>

definition handleDependencies ::
  "('c, 'm) collaborators \<Rightarrow> 's FileModule \<Rightarrow> 'c \<Rightarrow>
     (exn + time_t) \<times> 's FileModule \<times> 'c \<times> 'm event list" where
  "handleDependencies env fm c =
     (if is_handling_dependencies fm then (Inr 0, fm, c, [])
      else
        (let fm1 = fm\<lparr>is_handling_dependencies := True\<rparr> in
         case dependencies_loop env (path fm1) (externalDict fm1) [] 0 c of
           (Some e, updates, latest, c', evs) \<Rightarrow> (Inl e, fm1, c', evs)
         | (None, updates, latest, c', evs) \<Rightarrow>
             (case apply_updates (key_order env) updates (externalDict fm1) of
                (Some e, d) \<Rightarrow> (Inl e, fm1\<lparr>externalDict := d\<rparr>, c', evs)
              | (None, d) \<Rightarrow>
                  (Inr latest, fm1\<lparr>externalDict := d, is_handling_dependencies := False\<rparr>,
                   c', evs))))"

subsection \<open>\<^verbatim>\<open>instantiate\<close>\<close>

text \<open>
  The evaluation side; \<^verbatim>\<open>'x\<close> is the type of contexts (\<^verbatim>\<open>Context\<close> and its subclasses
  \<^verbatim>\<open>FileContext\<close> and \<^verbatim>\<open>EvalContext\<close>). \<open>FileContext\<close> builds the file context from the caller's,
  \<open>initializeModule\<close> is \<^verbatim>\<open>ctx->initializeModule(*this)\<close> and returns the initialised
  context or raises, \<open>instantiateChildren\<close> is \<^verbatim>\<open>scope.instantiateChildren(ctx)\<close>.
\<close>

record ('s, 'x, 'n) evaluator =
  FileContext :: "'x \<Rightarrow> 'x"
  initializeModule :: "'x \<Rightarrow> 's FileModule \<Rightarrow> exn + 'x"
  instantiateChildren :: "'s \<Rightarrow> 'x \<Rightarrow> exn + 'n list"

text \<open>\<^verbatim>\<open>RootNode\<close>: the instantiation it was made for, and its children.\<close>

datatype ('i, 'n) AbstractNode = RootNode 'i "'n list"

text \<open>
  An exception is caught when it is an \<^verbatim>\<open>EvaluationException\<close>; any other one
  leaves the function. Beside the result stands the list of the messages printed
  (\<^verbatim>\<open>PRINT(e.what())\<close>). The children are inserted into the node after
  \<^verbatim>\<open>instantiateChildren\<close> has returned, so the node of the handler has none.
\<close>

definition catch_EvaluationException ::
  "exn \<Rightarrow> 'i \<Rightarrow> (exn + ('i, 'n) AbstractNode) \<times> string list" where
  "catch_EvaluationException e inst =
     (case e of
        EvaluationException what \<Rightarrow> (Inr (RootNode inst []), [what])
      | _ \<Rightarrow> (Inl e, []))"

definition instantiateWithFileContext ::
  "('s, 'x, 'n) evaluator \<Rightarrow> 's FileModule \<Rightarrow> 'x \<Rightarrow> 'i \<Rightarrow> 'x option \<Rightarrow>
     (exn + ('i, 'n) AbstractNode) \<times> string list" where
  "instantiateWithFileContext ev fm ctx inst evalctx =
     (if evalctx \<noteq> None then (Inl AssertionFailure, [])
      else
        (case initializeModule ev ctx fm of
           Inl e \<Rightarrow> catch_EvaluationException e inst
         | Inr ctx' \<Rightarrow>
             (case instantiateChildren ev (scope fm) ctx' of
                Inl e \<Rightarrow> catch_EvaluationException e inst
              | Inr instantiatednodes \<Rightarrow> (Inr (RootNode inst ([] @ instantiatednodes)), []))))"

definition instantiate ::
  "('s, 'x, 'n) evaluator \<Rightarrow> 's FileModule \<Rightarrow> 'x \<Rightarrow> 'i \<Rightarrow> 'x option \<Rightarrow>
     (exn + ('i, 'n) AbstractNode) \<times> string list" where
  "instantiate ev fm ctx inst evalctx =
     (if evalctx \<noteq> None then (Inl AssertionFailure, [])
      else instantiateWithFileContext ev fm (FileContext ev ctx) inst evalctx)"

section \<open>The specification's view of a dependency pass\<close>

text \<open>
  The key under which an entry is looked up in this pass: the key itself when it is
  absolute, the resolved path when a relative key is resolved, none when the resolution
  fails.
\<close>

definition effective_key :: "('c, 'm) collaborators \<Rightarrow> string \<Rightarrow> string \<Rightarrow> string option" where
  "effective_key env p key =
     (if is_absolute env key then Some key
      else if find_valid_path env p key \<noteq> [] then Some (find_valid_path env p key)
      else None)"

text \<open>What one call of \<^verbatim>\<open>ModuleCache::evaluate\<close> in a pass saw and produced.\<close>

record 'm evaluation =
  e_key :: string
  e_filename :: string
  e_wasmissing :: bool
  e_wascached :: bool
  e_oldmodule :: "'m option"
  e_newmodule :: "'m option"
  e_mtime :: time_t

text \<open>
  The evaluations of a pass: one for every entry with an effective key, in the order of
  the entries, each on the cache the previous one left; the list ends where
  \<^verbatim>\<open>evaluate\<close> raises.
\<close>

fun evaluations ::
  "('c, 'm) collaborators \<Rightarrow> string \<Rightarrow> dict \<Rightarrow> 'c \<Rightarrow> 'm evaluation list" where
  "evaluations env p [] c = []"
| "evaluations env p (entry # rest) c =
     (case effective_key env p (fst entry) of
        None \<Rightarrow> evaluations env p rest c
      | Some f \<Rightarrow>
          (case evaluate env c f of
             (Inl e, c') \<Rightarrow> []
           | (Inr (t, m), c') \<Rightarrow>
               \<lparr>e_key = fst entry, e_filename = f,
                e_wasmissing = (\<not> is_absolute env (fst entry)),
                e_wascached = isCached env c f, e_oldmodule = lookup env c f,
                e_newmodule = m, e_mtime = t\<rparr> # evaluations env p rest c'))"


text \<open>The renames of a pass: the relative keys that are resolved, with their paths.\<close>

definition renames :: "('c, 'm) collaborators \<Rightarrow> string \<Rightarrow> dict \<Rightarrow> (string \<times> string) list" where
  "renames env p d =
     map (\<lambda>kv. (fst kv, find_valid_path env p (fst kv)))
       (filter (\<lambda>kv. \<not> is_absolute env (fst kv) \<and> find_valid_path env p (fst kv) \<noteq> []) d)"

text \<open>
  The index after the renames: a renamed key is gone, another key keeps its node, and a
  path that was no key holds the node of the first entry renamed to it.
\<close>

definition promoted :: "('c, 'm) collaborators \<Rightarrow> string \<Rightarrow> dict \<Rightarrow> string \<Rightarrow> ExternalNode option" where
  "promoted env p d k =
     (if k \<in> set (map fst (renames env p d)) then None
      else case map_of d k of
             Some n \<Rightarrow> Some n
           | None \<Rightarrow>
               (case find (\<lambda>u. snd u = k) (renames env p d) of
                  Some u \<Rightarrow> map_of d (fst u)
                | None \<Rightarrow> None))"


fun is_font_registration :: "'m event \<Rightarrow> bool" where
  "is_font_registration (RegisterFontFile f) = True"
| "is_font_registration _ = False"

fun is_evaluate_call :: "'m event \<Rightarrow> bool" where
  "is_evaluate_call (CallEvaluate f) = True"
| "is_evaluate_call _ = False"

text \<open>The file names of the Use and of the Include references of a list.\<close>

fun use_filenames :: "ExternalNode list \<Rightarrow> string list" where
  "use_filenames [] = []"
| "use_filenames (UseNode f # rest) = f # use_filenames rest"
| "use_filenames (IncludeNode f # rest) = use_filenames rest"

fun include_filenames :: "ExternalNode list \<Rightarrow> string list" where
  "include_filenames [] = []"
| "include_filenames (UseNode f # rest) = include_filenames rest"
| "include_filenames (IncludeNode f # rest) = f # include_filenames rest"

text \<open>
  An include that ends \<^verbatim>\<open>resolveIncludeNodes\<close>: it is resolved, and it cannot be opened or
  it cannot be parsed.
\<close>

definition include_fails :: "('c, 'm) collaborators \<Rightarrow> string \<Rightarrow> string \<Rightarrow> bool" where
  "include_fails env p f =
     (find_valid_path env p f \<noteq> [] \<and>
      (case open_file env (find_valid_path env p f) of
         None \<Rightarrow> True
       | Some content \<Rightarrow> \<not> parse env content (find_valid_path env p f)))"

definition include_failure :: "('c, 'm) collaborators \<Rightarrow> string \<Rightarrow> string \<Rightarrow> 'm event" where
  "include_failure env p f =
     (case open_file env (find_valid_path env p f) of
        None \<Rightarrow> CantOpenInclude (find_valid_path env p f)
      | Some content \<Rightarrow> CantParseInclude (find_valid_path env p f))"

section \<open>A file system and a module cache for concrete runs\<close>

text \<open>
  An instance of the collaborators: POSIX paths, a file system given by the list of its
  regular files, each with its modification time and the module its compilation yields
  (none when it does not compile), and a module cache that is the list of the entries it
  has stored. \<^verbatim>\<open>evaluate\<close> stores an entry for a file that exists and leaves the cache as
  it is for one that does not. The index is kept in the order of its keys.
\<close>

type_synonym files = "(string \<times> time_t \<times> nat option) list"

type_synonym module_cache = "(string \<times> nat option) list"

definition posix_is_absolute :: "string \<Rightarrow> bool" where
  "posix_is_absolute f = (take 1 f = ''/'')"

definition posix_find_valid_path :: "files \<Rightarrow> string \<Rightarrow> string \<Rightarrow> string" where
  "posix_find_valid_path fs p f =
     (let full = (if posix_is_absolute f then f else p @ ''/'' @ f)
      in if map_of fs full \<noteq> None then full else [])"

definition cache_evaluate ::
  "files \<Rightarrow> module_cache \<Rightarrow> string \<Rightarrow> (exn + time_t \<times> nat option) \<times> module_cache" where
  "cache_evaluate fs c f =
     (case map_of fs f of
        None \<Rightarrow> (Inr (0, None), c)
      | Some tm \<Rightarrow> (Inr (fst tm, snd tm), (f, snd tm) # c))"

text \<open>The order of \<^verbatim>\<open>std::map\<close> on strings: by the values of the characters.\<close>

fun key_less :: "string \<Rightarrow> string \<Rightarrow> bool" where
  "key_less [] [] = False"
| "key_less [] (b # bs) = True"
| "key_less (a # as) [] = False"
| "key_less (a # as) (b # bs) =
     ((of_char a :: nat) < of_char b \<or> (a = b \<and> key_less as bs))"

fun key_insort :: "string \<Rightarrow> string list \<Rightarrow> string list" where
  "key_insort k [] = [k]"
| "key_insort k (k' # ks) = (if key_less k' k then k' # key_insort k ks else k # k' # ks)"

definition key_sort :: "string list \<Rightarrow> string list" where
  "key_sort ks = foldr key_insort ks []"

definition example_env :: "files \<Rightarrow> (module_cache, nat) collaborators" where
  "example_env fs =
     \<lparr>is_absolute = posix_is_absolute,
      find_valid_path = posix_find_valid_path fs,
      is_regular = (\<lambda>f. map_of fs f \<noteq> None),
      open_file = (\<lambda>f. if map_of fs f \<noteq> None then Some [] else None),
      parse = (\<lambda>content f. case map_of fs f of Some tm \<Rightarrow> snd tm \<noteq> None | None \<Rightarrow> False),
      stat = (\<lambda>f. map_option fst (map_of fs f)),
      isCached = (\<lambda>c f. map_of c f \<noteq> None),
      lookup = (\<lambda>c f. case map_of c f of Some m \<Rightarrow> m | None \<Rightarrow> None),
      evaluate = cache_evaluate fs,
      key_order = key_sort\<rparr>"

text \<open>The same, with an \<^verbatim>\<open>evaluate\<close> that raises.\<close>

definition raising_env :: "files \<Rightarrow> (module_cache, nat) collaborators" where
  "raising_env fs = (example_env fs)\<lparr>evaluate := (\<lambda>c f. (Inl (OtherException ''bad_alloc''), c))\<rparr>"

text \<open>A module of \<^verbatim>\<open>/proj\<close> with the given references, its index and its guard.\<close>

definition example_module :: "ExternalNode list \<Rightarrow> dict \<Rightarrow> bool \<Rightarrow> unit FileModule" where
  "example_module refs d guard =
     \<lparr>is_handling_dependencies = guard, path = ''/proj'', filename = ''/proj/a.scad'',
      externalList = refs, externalDict = d, scope = ()\<rparr>"

text \<open>The insertions of \<^verbatim>\<open>resolveUseNodes\<close>, one for each name, in order.\<close>

definition insert_uses :: "(string list \<Rightarrow> string list) \<Rightarrow> dict \<Rightarrow> string list \<Rightarrow> dict" where
  "insert_uses ko d fs = foldl (\<lambda>d f. dict_insert ko (f, UseNode f) d) d fs"

text \<open>An evaluator with a fixed outcome of each of its two steps.\<close>

definition example_evaluator :: "exn + nat \<Rightarrow> exn + nat list \<Rightarrow> (unit, nat, nat) evaluator" where
  "example_evaluator i ch =
     \<lparr>FileContext = Suc, initializeModule = (\<lambda>x fm. i), instantiateChildren = (\<lambda>s x. ch)\<rparr>"

text \<open>The exception that ends the loop of a pass, if \<^verbatim>\<open>evaluate\<close> raises one.\<close>

fun first_raise :: "('c, 'm) collaborators \<Rightarrow> string \<Rightarrow> dict \<Rightarrow> 'c \<Rightarrow> exn option" where
  "first_raise env p [] c = None"
| "first_raise env p (entry # rest) c =
     (case effective_key env p (fst entry) of
        None \<Rightarrow> first_raise env p rest c
      | Some f \<Rightarrow>
          (case evaluate env c f of
             (Inl x, c') \<Rightarrow> Some x
           | (Inr r, c') \<Rightarrow> first_raise env p rest c'))"

text \<open>The entries that have an effective key.\<close>

definition has_effective_key :: "('c, 'm) collaborators \<Rightarrow> string \<Rightarrow> string \<times> ExternalNode \<Rightarrow> bool" where
  "has_effective_key env p entry = (effective_key env p (fst entry) \<noteq> None)"

text \<open>
  The paths that \<^verbatim>\<open>find_valid_path\<close> finds for the keys of an index are absolute.
\<close>

definition resolves_absolute :: "('c, 'm) collaborators \<Rightarrow> string \<Rightarrow> dict \<Rightarrow> bool" where
  "resolves_absolute env p d =
     list_all (\<lambda>kv. find_valid_path env p (fst kv) = [] \<or>
                    is_absolute env (find_valid_path env p (fst kv))) d"

section \<open>Properties\<close>

text \<open>
  C4: when the reentrancy guard is already set, \<^verbatim>\<open>handleDependencies\<close> returns 0 at once:
  the module (its index included) and the cache are unchanged, \<^verbatim>\<open>evaluate\<close> is not called
  and nothing is printed.
\<close>

theorem handleDependencies_reentrant:
  "is_handling_dependencies fm \<Longrightarrow> handleDependencies env fm c = (Inr 0, fm, c, [])"
  by (simp add: handleDependencies_def)

theorem handleDependencies_reentrant_witness:
  "is_handling_dependencies (example_module [UseNode ''lib/b''] [(''lib/b'', UseNode ''lib/b'')] True) \<and>
   handleDependencies (example_env [(''/proj/lib/b'', 7, Some 1)])
     (example_module [UseNode ''lib/b''] [(''lib/b'', UseNode ''lib/b'')] True) [] =
   (Inr 0, example_module [UseNode ''lib/b''] [(''lib/b'', UseNode ''lib/b'')] True, [], [])"
proof -
  let ?fm = "example_module [UseNode ''lib/b''] [(''lib/b'', UseNode ''lib/b'')] True"
  have h: "is_handling_dependencies ?fm" by (simp add: example_module_def)
  from handleDependencies_reentrant [OF h] h show ?thesis by simp
qed

subsection \<open>The map operations\<close>

lemma map_of_reorder:
  assumes "set ks = fst ` set x"
  shows "map_of (map (\<lambda>k. (k, case map_of x k of Some v' \<Rightarrow> v' | None \<Rightarrow> v)) ks) = map_of x"
proof (rule ext)
  fix k'
  show "map_of (map (\<lambda>k. (k, case map_of x k of Some v' \<Rightarrow> v' | None \<Rightarrow> v)) ks) k' = map_of x k'"
  proof (cases "map_of x k'")
    case None
    then have "k' \<notin> fst ` set x" by (rule iffD1 [OF map_of_eq_None_iff])
    with assms have "k' \<notin> set ks" by simp
    with None show ?thesis by (simp add: map_of_map_restrict restrict_map_def)
  next
    case (Some v')
    then have "(k', v') \<in> set x" by (rule map_of_SomeD)
    then have "fst (k', v') \<in> fst ` set x" by (rule imageI)
    then have "k' \<in> fst ` set x" by (simp only: fst_conv)
    with assms have "k' \<in> set ks" by simp
    with Some show ?thesis by (simp add: map_of_map_restrict restrict_map_def)
  qed
qed

lemma dict_insert_absent:
  assumes "k \<notin> fst ` set d"
  shows "map_of (dict_insert ko (k, v) d) = map_of (d @ [(k, v)])"
    and "fst ` set (dict_insert ko (k, v) d) = insert k (fst ` set d)"
    and "distinct (map fst d) \<Longrightarrow> distinct (map fst (dict_insert ko (k, v) d))"
proof -
  define x where "x = d @ [(k, v)]"
  define ks where "ks = ko (map fst x)"
  define r where "r = map (\<lambda>k'. (k', case map_of x k' of Some v' \<Rightarrow> v' | None \<Rightarrow> v)) ks"
  define C where "C \<longleftrightarrow> length ks = length x \<and> set ks = fst ` set x"
  have E: "dict_insert ko (k, v) d = (if C then r else x)"
    using assms unfolding x_def ks_def r_def C_def
    by (simp add: dict_insert_def Let_def cong: option.case_cong)
  have keys: "fst ` set x = insert k (fst ` set d)"
    unfolding x_def by simp
  have rkeys: "map fst r = ks"
    unfolding r_def by (simp add: comp_def)
  have "map_of (if C then r else x) = map_of x"
  proof (cases C)
    case True
    then have "set ks = fst ` set x" unfolding C_def by (rule conjunct2)
    then have "map_of r = map_of x" unfolding r_def by (rule map_of_reorder)
    with True show ?thesis by simp
  next
    case False
    then show ?thesis by simp
  qed
  then show "map_of (dict_insert ko (k, v) d) = map_of (d @ [(k, v)])"
    unfolding E x_def .
  have "fst ` set (if C then r else x) = fst ` set x"
  proof (cases C)
    case True
    then have "set ks = fst ` set x" unfolding C_def by (rule conjunct2)
    moreover have "fst ` set r = set (map fst r)" by simp
    ultimately have "fst ` set r = fst ` set x" by (simp only: rkeys)
    with True show ?thesis by simp
  next
    case False
    then show ?thesis by simp
  qed
  then show "fst ` set (dict_insert ko (k, v) d) = insert k (fst ` set d)"
    unfolding E keys .
  show "distinct (map fst (dict_insert ko (k, v) d))" if dist: "distinct (map fst d)"
  proof -
    from dist assms have dx: "distinct (map fst x)" unfolding x_def by simp
    have "distinct (map fst (if C then r else x))"
    proof (cases C)
      case True
      from dx have "card (set (map fst x)) = length (map fst x)" by (rule distinct_card)
      with True have "card (set ks) = length ks" unfolding C_def by simp
      then have "distinct ks" by (rule card_distinct)
      then have "distinct (map fst r)" by (simp only: rkeys)
      with True show ?thesis by simp
    next
      case False
      with dx show ?thesis by simp
    qed
    then show ?thesis unfolding E .
  qed
qed

lemma dict_insert_present: "k \<in> fst ` set d \<Longrightarrow> dict_insert ko (k, v) d = d"
  by (simp add: dict_insert_def)

lemma map_of_dict_insert:
  "map_of (dict_insert ko (k, v) d) k' =
     (case map_of d k' of Some x \<Rightarrow> Some x | None \<Rightarrow> if k' = k then Some v else None)"
proof (cases "k \<in> fst ` set d")
  case True
  then have "map_of d k \<noteq> None" by (simp add: map_of_eq_None_iff)
  with True show ?thesis by (auto simp: dict_insert_present split: option.splits)
next
  case False
  then show ?thesis
    by (simp add: dict_insert_absent(1) map_add_def split: option.splits)
qed

lemma keys_dict_insert: "fst ` set (dict_insert ko (k, v) d) = insert k (fst ` set d)"
  by (cases "k \<in> fst ` set d") (auto simp: dict_insert_present dict_insert_absent(2))

lemma distinct_dict_insert:
  "distinct (map fst d) \<Longrightarrow> distinct (map fst (dict_insert ko (k, v) d))"
  by (cases "k \<in> fst ` set d") (simp_all add: dict_insert_present dict_insert_absent(3))

lemma map_of_dict_erase:
  "map_of (dict_erase k d) k' = (if k' = k then None else map_of d k')"
  by (induction d) (auto simp: dict_erase_def)

lemma keys_dict_erase: "fst ` set (dict_erase k d) = fst ` set d - {k}"
  by (auto simp: dict_erase_def)

lemma distinct_dict_erase:
  "distinct (map fst d) \<Longrightarrow> distinct (map fst (dict_erase k d))"
  by (simp add: dict_erase_def distinct_map_filter)

subsection \<open>\<^verbatim>\<open>resolveUseNodes\<close> and \<^verbatim>\<open>resolveExternals\<close>\<close>

lemma insert_uses_simps:
  "insert_uses ko d [] = d"
  "insert_uses ko d (f # fs) = insert_uses ko (dict_insert ko (f, UseNode f) d) fs"
  by (simp_all add: insert_uses_def)

lemma resolveUseNodes_loop_dict:
  "fst (resolveUseNodes_loop env ns d) =
     insert_uses (key_order env) d (filter (\<lambda>f. \<not> is_font_ext f) (use_filenames ns))"
  by (induction env ns d rule: resolveUseNodes_loop.induct)
     (simp_all add: insert_uses_simps Let_def)

lemma resolveUseNodes_loop_events:
  "snd (resolveUseNodes_loop env ns d) =
     map (\<lambda>f. if is_regular env f then RegisterFontFile f else ErrorCantReadFont f)
       (filter is_font_ext (use_filenames ns))"
  by (induction env ns d rule: resolveUseNodes_loop.induct)
     (simp_all add: Let_def)

lemma map_of_insert_uses:
  "map_of (insert_uses ko d fs) k =
     (case map_of d k of Some n \<Rightarrow> Some n
      | None \<Rightarrow> if k \<in> set fs then Some (UseNode k) else None)"
  by (induction fs arbitrary: d)
     (auto simp: insert_uses_simps map_of_dict_insert split: option.splits)

lemma keys_insert_uses: "fst ` set (insert_uses ko d fs) = fst ` set d \<union> set fs"
  by (induction fs arbitrary: d) (auto simp: insert_uses_simps keys_dict_insert)

lemma insert_uses_present: "set fs \<subseteq> fst ` set d \<Longrightarrow> insert_uses ko d fs = d"
  by (induction fs arbitrary: d) (auto simp: insert_uses_simps dict_insert_present)

lemma insert_uses_idem: "insert_uses ko2 (insert_uses ko d fs) fs = insert_uses ko d fs"
  by (rule insert_uses_present) (simp add: keys_insert_uses)

lemma distinct_insert_uses:
  "distinct (map fst d) \<Longrightarrow> distinct (map fst (insert_uses ko d fs))"
  by (induction fs arbitrary: d) (simp_all add: insert_uses_simps distinct_dict_insert)

lemma resolveExternals_dict:
  "externalDict (fst (resolveExternals env fm)) =
     insert_uses (key_order env) (externalDict fm)
       (filter (\<lambda>f. \<not> is_font_ext f) (use_filenames (externalList fm)))"
  by (simp add: resolveExternals_def resolveIncludeNodes_def resolveUseNodes_def Let_def
      resolveUseNodes_loop_dict)

lemma resolveExternals_list:
  "externalList (fst (resolveExternals env fm)) = externalList fm"
  by (simp add: resolveExternals_def resolveIncludeNodes_def resolveUseNodes_def Let_def)

text \<open>
  C9: \<^verbatim>\<open>resolveExternals\<close> is idempotent on the index. A second call, whatever the
  file system then is, leaves \<^verbatim>\<open>externalDict\<close> (and the whole module) as the first call
  left it: every insertion of the second call finds its key present. Keys that were
  distinct stay distinct.
\<close>

theorem resolveExternals_idempotent:
  "externalDict (fst (resolveExternals env2 (fst (resolveExternals env1 fm)))) =
     externalDict (fst (resolveExternals env1 fm)) \<and>
   fst (resolveExternals env2 (fst (resolveExternals env1 fm))) = fst (resolveExternals env1 fm) \<and>
   (distinct (map fst (externalDict fm)) \<longrightarrow>
      distinct (map fst (externalDict (fst (resolveExternals env1 fm)))))"
proof -
  let ?fm1 = "fst (resolveExternals env1 fm)"
  have d: "externalDict (fst (resolveExternals env2 ?fm1)) = externalDict ?fm1"
    by (simp add: resolveExternals_dict resolveExternals_list insert_uses_idem)
  have "fst (resolveExternals env2 ?fm1) = ?fm1\<lparr>externalDict := externalDict (fst (resolveExternals env2 ?fm1))\<rparr>"
    by (simp add: resolveExternals_def resolveIncludeNodes_def resolveUseNodes_def Let_def)
  with d have w: "fst (resolveExternals env2 ?fm1) = ?fm1" by simp
  show ?thesis using d w by (simp add: resolveExternals_dict distinct_insert_uses)
qed

theorem resolveExternals_idempotent_witness:
  "distinct (map fst (externalDict (example_module [UseNode ''lib/b'', IncludeNode ''inc.scad'', UseNode ''Foo.TTF'', UseNode ''lib/b''] [] False))) \<and>
   externalDict (fst (resolveExternals (example_env [])
     (example_module [UseNode ''lib/b'', IncludeNode ''inc.scad'', UseNode ''Foo.TTF'', UseNode ''lib/b''] [] False))) = [(''lib/b'', UseNode ''lib/b'')] \<and>
   externalDict (fst (resolveExternals (example_env [(''/proj/lib/b'', 7, Some 1)])
     (fst (resolveExternals (example_env [])
       (example_module [UseNode ''lib/b'', IncludeNode ''inc.scad'', UseNode ''Foo.TTF'', UseNode ''lib/b''] [] False))))) =
     [(''lib/b'', UseNode ''lib/b'')]"
proof -
  let ?fm = "example_module [UseNode ''lib/b'', IncludeNode ''inc.scad'', UseNode ''Foo.TTF'', UseNode ''lib/b''] [] False"
  have h: "distinct (map fst (externalDict ?fm))" by code_simp
  have e: "externalDict (fst (resolveExternals (example_env []) ?fm)) = [(''lib/b'', UseNode ''lib/b'')]"
    by code_simp
  from resolveExternals_idempotent [of "example_env [(''/proj/lib/b'', 7, Some 1)]" "example_env []" ?fm]
  show ?thesis using h e by simp
qed

text \<open>
  C5 (amended): \<^verbatim>\<open>resolveUseNodes\<close> changes only \<^verbatim>\<open>externalDict\<close>. A Use reference whose
  extension is \<^verbatim>\<open>.otf\<close> or \<^verbatim>\<open>.ttf\<close>, in any case of letters, is never inserted; its path as
  written is handed to the font registry when it names a regular file, and otherwise an
  error is printed and nothing is registered. Every other Use reference is inserted
  under its path as written, whether or not the path resolves (the file system is not
  asked), unless that key is present already: then the entry there is kept.
\<close>

theorem resolveUseNodes_fonts_bypass:
  "resolveUseNodes env fm =
     (fm\<lparr>externalDict := externalDict (fst (resolveUseNodes env fm))\<rparr>,
      map (\<lambda>f. if is_regular env f then RegisterFontFile f else ErrorCantReadFont f)
        (filter is_font_ext (use_filenames (externalList fm)))) \<and>
   map_of (externalDict (fst (resolveUseNodes env fm))) k =
     (case map_of (externalDict fm) k of
        Some n \<Rightarrow> Some n
      | None \<Rightarrow> if k \<in> set (use_filenames (externalList fm)) \<and> \<not> is_font_ext k
                then Some (UseNode k) else None)"
  by (auto simp: resolveUseNodes_def Let_def resolveUseNodes_loop_dict
      resolveUseNodes_loop_events map_of_insert_uses split: option.splits)

theorem resolveUseNodes_fonts_bypass_witness:
  "resolveUseNodes (example_env [(''Foo.TTF'', 3, None)])
     (example_module [UseNode ''Foo.TTF'', UseNode ''lib/b'', UseNode ''Bar.otf''] [] False) =
   (example_module [UseNode ''Foo.TTF'', UseNode ''lib/b'', UseNode ''Bar.otf'']
      [(''lib/b'', UseNode ''lib/b'')] False,
    [RegisterFontFile ''Foo.TTF'', ErrorCantReadFont ''Bar.otf'']) \<and>
   map_of (externalDict (fst (resolveUseNodes (example_env [(''Foo.TTF'', 3, None)])
     (example_module [UseNode ''Foo.TTF'', UseNode ''lib/b'', UseNode ''Bar.otf''] [] False))))
     ''Foo.TTF'' = None \<and>
   map_of (externalDict (fst (resolveUseNodes (example_env [(''Foo.TTF'', 3, None)])
     (example_module [UseNode ''Foo.TTF'', UseNode ''lib/b'', UseNode ''Bar.otf''] [] False))))
     ''lib/b'' = Some (UseNode ''lib/b'')"
proof -
  let ?env = "example_env [(''Foo.TTF'', 3, None)]"
  let ?fm = "example_module [UseNode ''Foo.TTF'', UseNode ''lib/b'', UseNode ''Bar.otf''] [] False"
  have e: "resolveUseNodes ?env ?fm =
    (example_module [UseNode ''Foo.TTF'', UseNode ''lib/b'', UseNode ''Bar.otf'']
      [(''lib/b'', UseNode ''lib/b'')] False,
    [RegisterFontFile ''Foo.TTF'', ErrorCantReadFont ''Bar.otf''])"
    by code_simp
  have f: "is_font_ext ''Foo.TTF''" "\<not> is_font_ext ''lib/b''" by code_simp+
  have m: "map_of (externalDict ?fm) = Map.empty" "use_filenames (externalList ?fm) = [''Foo.TTF'', ''lib/b'', ''Bar.otf'']"
    by (simp_all add: example_module_def)
  from resolveUseNodes_fonts_bypass [of ?env ?fm "''Foo.TTF''"]
  have a: "map_of (externalDict (fst (resolveUseNodes ?env ?fm))) ''Foo.TTF'' = None"
    using f m by simp
  from resolveUseNodes_fonts_bypass [of ?env ?fm "''lib/b''"]
  have b: "map_of (externalDict (fst (resolveUseNodes ?env ?fm))) ''lib/b'' = Some (UseNode ''lib/b'')"
    using f m by simp
  show ?thesis using e a b by simp
qed

text \<open>
  Against C5 as stated: \<^verbatim>\<open>Foo.TTF\<close> that is no regular file is not registered (no
  registration call at all, an error instead). And a reference whose key is present
  already is not inserted: a module uses \<^verbatim>\<open>b\<close>, a pass promotes the key to \<^verbatim>\<open>/proj/b\<close>, then
  a use of \<^verbatim>\<open>/proj/b\<close> is added and resolved; the key keeps the node of \<^verbatim>\<open>b\<close>.
\<close>

theorem resolveUseNodes_fonts_counterexample:
  "snd (resolveUseNodes (example_env [])
      (example_module [UseNode ''Foo.TTF''] [] False)) = [ErrorCantReadFont ''Foo.TTF''] \<and>
   length (filter is_font_registration (snd (resolveUseNodes (example_env [])
      (example_module [UseNode ''Foo.TTF''] [] False)) :: nat event list)) \<noteq> 1 \<and>
   \<not> is_font_ext ''/proj/b'' \<and>
   externalDict (fst (snd (handleDependencies (example_env [(''/proj/b'', 7, Some 1)])
      (fst (resolveExternals (example_env [(''/proj/b'', 7, Some 1)])
         (addUseNode ''b'' (new_FileModule ''/proj'' ''/proj/a.scad'' ())))) []))) =
     [(''/proj/b'', UseNode ''b'')] \<and>
   map_of (externalDict (fst (resolveUseNodes (example_env [(''/proj/b'', 7, Some 1)])
      (addUseNode ''/proj/b''
         (fst (snd (handleDependencies (example_env [(''/proj/b'', 7, Some 1)])
            (fst (resolveExternals (example_env [(''/proj/b'', 7, Some 1)])
               (addUseNode ''b'' (new_FileModule ''/proj'' ''/proj/a.scad'' ())))) []))))))) ''/proj/b''
     \<noteq> Some (UseNode ''/proj/b'')"
  by code_simp

subsection \<open>\<^verbatim>\<open>includesChanged\<close>\<close>

lemma includesChanged_loop_max:
  "includesChanged_loop env ns latest =
     Max (set (latest # map (includeModified env) (include_filenames ns)))"
proof (induction env ns latest rule: includesChanged_loop.induct)
  case (3 env f rest latest)
  let ?m = "includeModified env f"
  let ?A = "set (map (includeModified env) (include_filenames rest))"
  have "Max (insert (if latest < ?m then ?m else latest) ?A) = Max (insert latest (insert ?m ?A))"
    by (cases "?A = {}") (auto simp: max_def)
  with 3 show ?case by (simp add: Let_def)
qed simp_all

lemma includesChanged_loop_stat:
  "stat env' = stat env \<Longrightarrow> includesChanged_loop env' ns latest = includesChanged_loop env ns latest"
  by (induction env ns latest rule: includesChanged_loop.induct)
     (simp_all add: includeModified_def)

text \<open>
  C6 (amended): \<^verbatim>\<open>includesChanged\<close> returns the greatest of 0 and the values of
  \<^verbatim>\<open>includeModified\<close> over the Include references: 0 when there is none, and \<open>T2\<close> for
  two includes of times \<open>T1 < T2\<close> with \<open>0 \<le> T2\<close>. \<^verbatim>\<open>includeModified\<close> returns the time
  \<^verbatim>\<open>StatCache\<close> reports for the file name it looks up, and 0 when the lookup fails. Both
  depend on \<^verbatim>\<open>StatCache\<close> alone, not on \<^verbatim>\<open>ModuleCache\<close>.
\<close>

theorem includesChanged_max:
  "includesChanged env fm =
     Max (set (0 # map (includeModified env) (include_filenames (externalList fm)))) \<and>
   (include_filenames (externalList fm) = [] \<longrightarrow> includesChanged env fm = 0) \<and>
   (include_filenames (externalList fm) = [f1, f2] \<and> stat env f1 = Some T1 \<and>
    stat env f2 = Some T2 \<and> T1 < T2 \<and> 0 \<le> T2 \<longrightarrow> includesChanged env fm = T2) \<and>
   includeModified env f = (case stat env f of Some st_mtime \<Rightarrow> st_mtime | None \<Rightarrow> 0) \<and>
   (stat env' = stat env \<longrightarrow> includesChanged env' fm = includesChanged env fm)"
  by (auto simp: includesChanged_def includesChanged_loop_max includeModified_def
      includesChanged_loop_stat)

theorem includesChanged_max_witness:
  "include_filenames (externalList (example_module
      [IncludeNode ''/proj/x.scad'', UseNode ''lib/b'', IncludeNode ''/proj/y.scad''] [] False)) =
     [''/proj/x.scad'', ''/proj/y.scad''] \<and>
   stat (example_env [(''/proj/x.scad'', 3, Some 1), (''/proj/y.scad'', 9, Some 2)])
     ''/proj/x.scad'' = Some 3 \<and>
   stat (example_env [(''/proj/x.scad'', 3, Some 1), (''/proj/y.scad'', 9, Some 2)])
     ''/proj/y.scad'' = Some 9 \<and>
   (3::int) < 9 \<and> (0::int) \<le> 9 \<and>
   stat (raising_env [(''/proj/x.scad'', 3, Some 1), (''/proj/y.scad'', 9, Some 2)]) =
     stat (example_env [(''/proj/x.scad'', 3, Some 1), (''/proj/y.scad'', 9, Some 2)]) \<and>
   includesChanged (example_env [(''/proj/x.scad'', 3, Some 1), (''/proj/y.scad'', 9, Some 2)])
     (example_module
        [IncludeNode ''/proj/x.scad'', UseNode ''lib/b'', IncludeNode ''/proj/y.scad''] [] False) = 9 \<and>
   includesChanged (raising_env [(''/proj/x.scad'', 3, Some 1), (''/proj/y.scad'', 9, Some 2)])
     (example_module
        [IncludeNode ''/proj/x.scad'', UseNode ''lib/b'', IncludeNode ''/proj/y.scad''] [] False) = 9"
proof -
  let ?fs = "[(''/proj/x.scad'', 3, Some 1), (''/proj/y.scad'', 9, Some 2)] :: files"
  let ?fm = "example_module
        [IncludeNode ''/proj/x.scad'', UseNode ''lib/b'', IncludeNode ''/proj/y.scad''] [] False"
  have l: "include_filenames (externalList ?fm) = [''/proj/x.scad'', ''/proj/y.scad'']"
    by (simp add: example_module_def)
  have s1: "stat (example_env ?fs) ''/proj/x.scad'' = Some 3"
    and s2: "stat (example_env ?fs) ''/proj/y.scad'' = Some 9"
    by (simp_all add: example_env_def)
  have s: "stat (raising_env ?fs) = stat (example_env ?fs)"
    by (simp add: raising_env_def)
  note t = includesChanged_max
    [of "example_env ?fs" ?fm "''/proj/x.scad''" "''/proj/y.scad''" 3 9 "''/proj/x.scad''" "raising_env ?fs"]
  have n: "(3::int) < 9" "(0::int) \<le> 9" by simp_all
  from t l s1 s2 n have a: "includesChanged (example_env ?fs) ?fm = 9" by blast
  from t s have b: "includesChanged (raising_env ?fs) ?fm = includesChanged (example_env ?fs) ?fm"
    by blast
  show ?thesis using l s1 s2 s a b by simp
qed

text \<open>
  Against C6 as stated: an include of a negative modification time gives 0, which is
  not the maximum over the includes; and the name looked up is the reference's name as
  written, so an include that resolves to a file of time 5 is reported as 0.
\<close>

theorem includesChanged_counterexample:
  "includeModified (example_env [(''/proj/old.scad'', - 1, Some 1)]) ''/proj/old.scad'' = - 1 \<and>
   includesChanged (example_env [(''/proj/old.scad'', - 1, Some 1)])
     (example_module [IncludeNode ''/proj/old.scad''] [] False) = 0 \<and>
   find_valid_path (example_env [(''/proj/inc.scad'', 5, Some 1)]) ''/proj'' ''inc.scad'' =
     ''/proj/inc.scad'' \<and>
   stat (example_env [(''/proj/inc.scad'', 5, Some 1)]) ''/proj/inc.scad'' = Some 5 \<and>
   includeModified (example_env [(''/proj/inc.scad'', 5, Some 1)]) ''inc.scad'' = 0"
  by code_simp

subsection \<open>\<^verbatim>\<open>instantiate\<close>\<close>

lemma catch_EvaluationException_not_escaping:
  "fst (catch_EvaluationException e inst) \<noteq> Inl (EvaluationException w)"
  by (cases e) (simp_all add: catch_EvaluationException_def)

lemma instantiateWithFileContext_not_escaping:
  "fst (instantiateWithFileContext ev fm ctx inst None) \<noteq> Inl (EvaluationException w)"
  by (simp add: instantiateWithFileContext_def catch_EvaluationException_not_escaping
      split: sum.splits)

text \<open>
  C7: called as its assertion requires (no evaluation context), \<^verbatim>\<open>instantiate\<close> never
  lets an \<^verbatim>\<open>EvaluationException\<close> out. When the initialisation of the context or the
  instantiation of the children raises one, its message is printed and a root node is
  returned; the node has no children then, as they are inserted only after the
  instantiation has returned. When neither raises, the root node holds the instantiated
  children. \<^verbatim>\<open>instantiate\<close> is \<^verbatim>\<open>instantiateWithFileContext\<close> on a new file context.
\<close>

theorem instantiate_contains_failure:
  "fst (instantiate ev fm ctx inst None) \<noteq> Inl (EvaluationException w') \<and>
   (initializeModule ev (FileContext ev ctx) fm = Inl (EvaluationException w) \<longrightarrow>
      instantiate ev fm ctx inst None = (Inr (RootNode inst []), [w])) \<and>
   (initializeModule ev (FileContext ev ctx) fm = Inr ctx' \<and>
    instantiateChildren ev (scope fm) ctx' = Inl (EvaluationException w) \<longrightarrow>
      instantiate ev fm ctx inst None = (Inr (RootNode inst []), [w])) \<and>
   (initializeModule ev (FileContext ev ctx) fm = Inr ctx' \<and>
    instantiateChildren ev (scope fm) ctx' = Inr nodes \<longrightarrow>
      instantiate ev fm ctx inst None = (Inr (RootNode inst nodes), [])) \<and>
   instantiate ev fm ctx inst None = instantiateWithFileContext ev fm (FileContext ev ctx) inst None"
proof -
  have eq: "instantiate ev fm ctx inst None =
      instantiateWithFileContext ev fm (FileContext ev ctx) inst None"
    by (simp add: instantiate_def)
  have esc: "fst (instantiate ev fm ctx inst None) \<noteq> Inl (EvaluationException w')"
    unfolding eq by (rule instantiateWithFileContext_not_escaping)
  show ?thesis
    using esc
    by (simp add: eq instantiateWithFileContext_def catch_EvaluationException_def)
qed

theorem instantiate_contains_failure_witness:
  "initializeModule (example_evaluator (Inl (EvaluationException ''experimental'')) (Inr [1, 2]))
     (FileContext (example_evaluator (Inl (EvaluationException ''experimental'')) (Inr [1, 2])) 0)
     (example_module [] [] False) = Inl (EvaluationException ''experimental'') \<and>
   instantiate (example_evaluator (Inl (EvaluationException ''experimental'')) (Inr [1, 2]))
     (example_module [] [] False) 0 ''inst'' None = (Inr (RootNode ''inst'' []), [''experimental'']) \<and>
   initializeModule (example_evaluator (Inr 1) (Inl (EvaluationException ''recursion'')))
     (FileContext (example_evaluator (Inr 1) (Inl (EvaluationException ''recursion''))) 0)
     (example_module [] [] False) = Inr 1 \<and>
   instantiateChildren (example_evaluator (Inr 1) (Inl (EvaluationException ''recursion'')))
     (scope (example_module [] [] False)) 1 = Inl (EvaluationException ''recursion'') \<and>
   instantiate (example_evaluator (Inr 1) (Inl (EvaluationException ''recursion'')))
     (example_module [] [] False) 0 ''inst'' None = (Inr (RootNode ''inst'' []), [''recursion'']) \<and>
   initializeModule (example_evaluator (Inr 1) (Inr [1, 2]))
     (FileContext (example_evaluator (Inr 1) (Inr [1, 2])) 0)
     (example_module [] [] False) = Inr 1 \<and>
   instantiateChildren (example_evaluator (Inr 1) (Inr [1, 2]))
     (scope (example_module [] [] False)) 1 = Inr [1, 2] \<and>
   instantiate (example_evaluator (Inr 1) (Inr [1, 2]))
     (example_module [] [] False) 0 ''inst'' None = (Inr (RootNode ''inst'' [1, 2]), [])"
proof -
  let ?fm = "example_module [] [] False"
  let ?e1 = "example_evaluator (Inl (EvaluationException ''experimental'')) (Inr [1, 2])"
  let ?e2 = "example_evaluator (Inr 1) (Inl (EvaluationException ''recursion''))"
  let ?e3 = "example_evaluator (Inr 1) (Inr [1, 2])"
  have h1: "initializeModule ?e1 (FileContext ?e1 0) ?fm = Inl (EvaluationException ''experimental'')"
    by (simp add: example_evaluator_def)
  have h2: "initializeModule ?e2 (FileContext ?e2 0) ?fm = Inr 1"
    "instantiateChildren ?e2 (scope ?fm) 1 = Inl (EvaluationException ''recursion'')"
    by (simp_all add: example_evaluator_def)
  have h3: "initializeModule ?e3 (FileContext ?e3 0) ?fm = Inr 1"
    "instantiateChildren ?e3 (scope ?fm) 1 = Inr [1, 2]"
    by (simp_all add: example_evaluator_def)
  from instantiate_contains_failure [of ?e1 ?fm 0 "''inst''" _ "''experimental''"] h1
  have c1: "instantiate ?e1 ?fm 0 ''inst'' None = (Inr (RootNode ''inst'' []), [''experimental''])"
    by blast
  from instantiate_contains_failure [of ?e2 ?fm 0 "''inst''" _ "''recursion''" 1] h2
  have c2: "instantiate ?e2 ?fm 0 ''inst'' None = (Inr (RootNode ''inst'' []), [''recursion''])"
    by blast
  from instantiate_contains_failure [of ?e3 ?fm 0 "''inst''" _ _ 1 "[1, 2]"] h3
  have c3: "instantiate ?e3 ?fm 0 ''inst'' None = (Inr (RootNode ''inst'' [1, 2]), [])"
    by blast
  from h1 h2 h3 c1 c2 c3 show ?thesis by blast
qed

subsection \<open>\<^verbatim>\<open>resolveIncludeNodes\<close>\<close>

lemma resolveIncludeNodes_loop_events:
  "resolveIncludeNodes_loop env p ns =
     map WarningCantOpenInclude
       (filter (\<lambda>f. find_valid_path env p f = [])
          (takeWhile (\<lambda>f. \<not> include_fails env p f) (include_filenames ns))) @
     (case dropWhile (\<lambda>f. \<not> include_fails env p f) (include_filenames ns) of
        [] \<Rightarrow> []
      | f # fs \<Rightarrow> [include_failure env p f])"
  by (induction env p ns rule: resolveIncludeNodes_loop.induct)
     (auto simp: include_fails_def include_failure_def Let_def split: option.splits)

text \<open>
  C8: \<^verbatim>\<open>resolveIncludeNodes\<close> changes nothing in the module. It prints a warning for every
  include that is not resolved, up to the first resolved include that cannot be opened or
  parsed; that one is reported and ends the loop. When no include fails so, every
  unresolved include of the list gets its warning. \<^verbatim>\<open>resolveExternals\<close> leaves the module
  as \<^verbatim>\<open>resolveUseNodes\<close> alone does, and does all that \<^verbatim>\<open>resolveUseNodes\<close> does after the
  includes, however the include loop has ended.
\<close>

theorem resolveIncludeNodes_failures:
  "fst (resolveIncludeNodes env fm) = fm \<and>
   snd (resolveIncludeNodes env fm) =
     map WarningCantOpenInclude
       (filter (\<lambda>f. find_valid_path env (path fm) f = [])
          (takeWhile (\<lambda>f. \<not> include_fails env (path fm) f)
             (include_filenames (externalList fm)))) @
     (case dropWhile (\<lambda>f. \<not> include_fails env (path fm) f)
             (include_filenames (externalList fm)) of
        [] \<Rightarrow> []
      | f # fs \<Rightarrow> [include_failure env (path fm) f]) \<and>
   ((\<forall>f \<in> set (include_filenames (externalList fm)). \<not> include_fails env (path fm) f) \<longrightarrow>
      snd (resolveIncludeNodes env fm) =
        map WarningCantOpenInclude
          (filter (\<lambda>f. find_valid_path env (path fm) f = [])
             (include_filenames (externalList fm)))) \<and>
   fst (resolveExternals env fm) = fst (resolveUseNodes env fm) \<and>
   snd (resolveExternals env fm) =
     snd (resolveIncludeNodes env fm) @ snd (resolveUseNodes env fm)"
proof -
  let ?incs = "include_filenames (externalList fm)"
  let ?ok = "\<lambda>f. \<not> include_fails env (path fm) f"
  have ev: "snd (resolveIncludeNodes env fm) =
     map WarningCantOpenInclude
       (filter (\<lambda>f. find_valid_path env (path fm) f = []) (takeWhile ?ok ?incs)) @
     (case dropWhile ?ok ?incs of [] \<Rightarrow> [] | f # fs \<Rightarrow> [include_failure env (path fm) f])"
    by (simp add: resolveIncludeNodes_def resolveIncludeNodes_loop_events)
  have all: "snd (resolveIncludeNodes env fm) =
        map WarningCantOpenInclude (filter (\<lambda>f. find_valid_path env (path fm) f = []) ?incs)"
    if "\<forall>f \<in> set ?incs. ?ok f"
  proof -
    from that have "takeWhile ?ok ?incs = ?incs" and "dropWhile ?ok ?incs = []"
      by simp_all
    with ev show ?thesis by simp
  qed
  have ext: "fst (resolveExternals env fm) = fst (resolveUseNodes env fm)"
    "snd (resolveExternals env fm) = snd (resolveIncludeNodes env fm) @ snd (resolveUseNodes env fm)"
    by (simp_all add: resolveExternals_def resolveIncludeNodes_def Let_def)
  have "fst (resolveIncludeNodes env fm) = fm"
    by (simp add: resolveIncludeNodes_def)
  with ev all ext show ?thesis by blast
qed

theorem resolveIncludeNodes_failures_witness:
  "\<not> include_fails (example_env [(''/proj/ok.scad'', 1, Some 1)]) ''/proj'' ''missing.scad'' \<and>
   \<not> include_fails (example_env [(''/proj/ok.scad'', 1, Some 1)]) ''/proj'' ''ok.scad'' \<and>
   \<not> include_fails (example_env [(''/proj/ok.scad'', 1, Some 1)]) ''/proj'' ''gone.scad'' \<and>
   snd (resolveIncludeNodes (example_env [(''/proj/ok.scad'', 1, Some 1)])
     (example_module
        [IncludeNode ''missing.scad'', IncludeNode ''ok.scad'', UseNode ''lib/b'',
         IncludeNode ''gone.scad''] [] False)) =
     [WarningCantOpenInclude ''missing.scad'', WarningCantOpenInclude ''gone.scad''] \<and>
   resolveExternals (example_env [(''/proj/bad.scad'', 1, None)])
     (example_module
        [IncludeNode ''missing.scad'', IncludeNode ''bad.scad'', UseNode ''lib/b'',
         IncludeNode ''gone.scad''] [] False) =
     (example_module
        [IncludeNode ''missing.scad'', IncludeNode ''bad.scad'', UseNode ''lib/b'',
         IncludeNode ''gone.scad''] [(''lib/b'', UseNode ''lib/b'')] False,
      [WarningCantOpenInclude ''missing.scad'', CantParseInclude ''/proj/bad.scad''])"
proof -
  let ?fm = "example_module
        [IncludeNode ''missing.scad'', IncludeNode ''ok.scad'', UseNode ''lib/b'',
         IncludeNode ''gone.scad''] [] False"
  let ?env = "example_env [(''/proj/ok.scad'', 1, Some 1)]"
  let ?fm2 = "example_module
        [IncludeNode ''missing.scad'', IncludeNode ''bad.scad'', UseNode ''lib/b'',
         IncludeNode ''gone.scad''] [] False"
  let ?env2 = "example_env [(''/proj/bad.scad'', 1, None)]"
  have l: "include_filenames (externalList ?fm) = [''missing.scad'', ''ok.scad'', ''gone.scad'']"
    "path ?fm = ''/proj''"
    by (simp_all add: example_module_def)
  have f: "\<not> include_fails ?env ''/proj'' ''missing.scad''"
    "\<not> include_fails ?env ''/proj'' ''ok.scad''"
    "\<not> include_fails ?env ''/proj'' ''gone.scad''"
    by code_simp+
  have r: "find_valid_path ?env ''/proj'' ''missing.scad'' = []"
    "find_valid_path ?env ''/proj'' ''ok.scad'' \<noteq> []"
    "find_valid_path ?env ''/proj'' ''gone.scad'' = []"
    by code_simp+
  have h: "\<forall>f \<in> set (include_filenames (externalList ?fm)). \<not> include_fails ?env (path ?fm) f"
    using l f by simp
  from resolveIncludeNodes_failures [of ?env ?fm] h
  have "snd (resolveIncludeNodes ?env ?fm) =
        map WarningCantOpenInclude
          (filter (\<lambda>f. find_valid_path ?env (path ?fm) f = [])
             (include_filenames (externalList ?fm)))"
    by blast
  then have a: "snd (resolveIncludeNodes ?env ?fm) =
     [WarningCantOpenInclude ''missing.scad'', WarningCantOpenInclude ''gone.scad'']"
    using l r by simp
  have u: "resolveUseNodes ?env2 ?fm2 =
     (example_module
        [IncludeNode ''missing.scad'', IncludeNode ''bad.scad'', UseNode ''lib/b'',
         IncludeNode ''gone.scad''] [(''lib/b'', UseNode ''lib/b'')] False, [])"
    by code_simp
  have i: "snd (resolveIncludeNodes ?env2 ?fm2) =
     [WarningCantOpenInclude ''missing.scad'', CantParseInclude ''/proj/bad.scad'']"
    by code_simp
  from resolveIncludeNodes_failures [of ?env2 ?fm2] u i
  have b: "resolveExternals ?env2 ?fm2 =
     (example_module
        [IncludeNode ''missing.scad'', IncludeNode ''bad.scad'', UseNode ''lib/b'',
         IncludeNode ''gone.scad''] [(''lib/b'', UseNode ''lib/b'')] False,
      [WarningCantOpenInclude ''missing.scad'', CantParseInclude ''/proj/bad.scad''])"
    by (simp add: prod_eq_iff)
  from f a b show ?thesis by blast
qed

subsection \<open>The loop of \<^verbatim>\<open>handleDependencies\<close>\<close>

lemma locate_effective:
  "locate env p k =
     (case effective_key env p k of
        None \<Rightarrow> (k, True, False, [])
      | Some f \<Rightarrow> (f, \<not> is_absolute env k, True, if is_absolute env k then [] else [(k, f)]))"
  by (simp add: locate_def effective_key_def Let_def)

lemma renames_Nil: "renames env p [] = []"
  by (simp add: renames_def)

lemma renames_Cons:
  "renames env p (e # d) =
     (case effective_key env p (fst e) of
        None \<Rightarrow> renames env p d
      | Some f \<Rightarrow> (if is_absolute env (fst e) then [] else [(fst e, f)]) @ renames env p d)"
  by (simp add: renames_def effective_key_def)


lemma filter_call_report: "filter is_evaluate_call (report f wm wc old new) = []"
  by (simp add: report_def)

lemma Max_latest:
  "finite A \<Longrightarrow> Max (insert (max (l::int) m) A) = max l (Max (insert m A))"
  by (cases "A = {}") (simp_all add: max.assoc)

text \<open>One turn of the loop, by what the entry resolves to and what evaluate does.\<close>

lemma loop_Cons_unresolved:
  "effective_key env p (fst e) = None \<Longrightarrow>
   dependencies_loop env p (e # d) ups lat c = dependencies_loop env p d ups lat c"
  by (simp add: locate_effective)

lemma loop_Cons_raise:
  "effective_key env p (fst e) = Some f \<Longrightarrow> evaluate env c f = (Inl x, c') \<Longrightarrow>
   dependencies_loop env p (e # d) ups lat c =
     (Some x, ups @ (if is_absolute env (fst e) then [] else [(fst e, f)]), lat, c',
      [CallEvaluate f])"
  by (simp add: locate_effective)

lemma loop_Cons_return:
  "effective_key env p (fst e) = Some f \<Longrightarrow> evaluate env c f = (Inr (t, m), c') \<Longrightarrow>
   dependencies_loop env p (e # d) ups lat c =
     (let r = dependencies_loop env p d
                (ups @ (if is_absolute env (fst e) then [] else [(fst e, f)])) (max lat t) c'
      in (fst r, fst (snd r), fst (snd (snd r)), fst (snd (snd (snd r))),
          CallEvaluate f #
          report f (\<not> is_absolute env (fst e)) (isCached env c f) (lookup env c f) m @
          snd (snd (snd (snd r)))))"
  by (simp add: locate_effective max_def split: prod.splits)

lemma evaluations_Cons_unresolved:
  "effective_key env p (fst e) = None \<Longrightarrow> evaluations env p (e # d) c = evaluations env p d c"
  by simp

lemma evaluations_Cons_raise:
  "effective_key env p (fst e) = Some f \<Longrightarrow> evaluate env c f = (Inl x, c') \<Longrightarrow>
   evaluations env p (e # d) c = []"
  by simp

lemma evaluations_Cons_return:
  "effective_key env p (fst e) = Some f \<Longrightarrow> evaluate env c f = (Inr (t, m), c') \<Longrightarrow>
   evaluations env p (e # d) c =
     \<lparr>e_key = fst e, e_filename = f, e_wasmissing = (\<not> is_absolute env (fst e)),
      e_wascached = isCached env c f, e_oldmodule = lookup env c f,
      e_newmodule = m, e_mtime = t\<rparr> # evaluations env p d c'"
  by simp

declare dependencies_loop.simps(2) [simp del] evaluations.simps(2) [simp del]

lemma evaluate_cases:
  obtains (raise) x c' where "evaluate env c f = (Inl x, c')"
  | (return) t m c' where "evaluate env c f = (Inr (t, m), c')"
  by (cases "evaluate env c f"; cases "fst (evaluate env c f)") auto

lemma loop_updates:
  "fst (dependencies_loop env p d ups lat c) = None \<Longrightarrow>
   fst (snd (dependencies_loop env p d ups lat c)) = ups @ renames env p d"
proof (induction d arbitrary: ups lat c)
  case Nil
  show ?case by (simp add: renames_Nil)
next
  case (Cons e d)
  show ?case
  proof (cases "effective_key env p (fst e)")
    case None
    with Cons show ?thesis by (simp add: loop_Cons_unresolved renames_Cons)
  next
    case (Some f)
    show ?thesis
    proof (cases rule: evaluate_cases [of env c f])
      case (raise x c')
      with Some Cons.prems show ?thesis by (simp add: loop_Cons_raise)
    next
      case (return t m c')
      with Some Cons show ?thesis
        by (simp add: loop_Cons_return renames_Cons Let_def)
    qed
  qed
qed

lemma loop_latest:
  "fst (dependencies_loop env p d ups lat c) = None \<Longrightarrow>
   fst (snd (snd (dependencies_loop env p d ups lat c))) =
     Max (set (lat # map e_mtime (evaluations env p d c)))"
proof (induction d arbitrary: ups lat c)
  case Nil
  show ?case by simp
next
  case (Cons e d)
  show ?case
  proof (cases "effective_key env p (fst e)")
    case None
    with Cons show ?thesis
      by (simp only: loop_Cons_unresolved evaluations_Cons_unresolved)
  next
    case (Some f)
    show ?thesis
    proof (cases rule: evaluate_cases [of env c f])
      case (raise x c')
      with Some Cons.prems show ?thesis by (simp add: loop_Cons_raise)
    next
      case (return t m c')
      with Some Cons.prems
      have "fst (dependencies_loop env p d
                (ups @ (if is_absolute env (fst e) then [] else [(fst e, f)])) (max lat t) c') = None"
        by (simp add: loop_Cons_return Let_def)
      from Cons.IH [OF this] Some return show ?thesis
        by (simp add: loop_Cons_return Let_def Max_latest evaluations_Cons_return)
    qed
  qed
qed


lemma loop_calls:
  "fst (dependencies_loop env p d ups lat c) = None \<Longrightarrow>
   filter is_evaluate_call (snd (snd (snd (snd (dependencies_loop env p d ups lat c))))) =
     map (\<lambda>e. CallEvaluate (e_filename e)) (evaluations env p d c)"
proof (induction d arbitrary: ups lat c)
  case Nil
  show ?case by simp
next
  case (Cons e d)
  show ?case
  proof (cases "effective_key env p (fst e)")
    case None
    with Cons show ?thesis
      by (simp only: loop_Cons_unresolved evaluations_Cons_unresolved)
  next
    case (Some f)
    show ?thesis
    proof (cases rule: evaluate_cases [of env c f])
      case (raise x c')
      with Some Cons.prems show ?thesis by (simp add: loop_Cons_raise)
    next
      case (return t m c')
      with Some Cons.prems
      have "fst (dependencies_loop env p d
                (ups @ (if is_absolute env (fst e) then [] else [(fst e, f)])) (max lat t) c') = None"
        by (simp add: loop_Cons_return Let_def)
      from Cons.IH [OF this] Some return show ?thesis
        by (simp add: loop_Cons_return Let_def filter_call_report evaluations_Cons_return)
    qed
  qed
qed

lemma loop_no_raise:
  "(\<And>c f. \<not> isl (fst (evaluate env c f))) \<Longrightarrow>
   fst (dependencies_loop env p d ups lat c) = None"
proof (induction d arbitrary: ups lat c)
  case Nil
  show ?case by simp
next
  case (Cons e d)
  show ?case
  proof (cases "effective_key env p (fst e)")
    case None
    with Cons show ?thesis by (simp add: loop_Cons_unresolved)
  next
    case (Some f)
    show ?thesis
    proof (cases rule: evaluate_cases [of env c f])
      case (raise x c')
      with Cons.prems(1) [of c f] show ?thesis by simp
    next
      case (return t m c')
      with Some Cons show ?thesis by (simp add: loop_Cons_return Let_def)
    qed
  qed
qed

lemma loop_exn:
  "fst (dependencies_loop env p d ups lat c) = first_raise env p d c"
proof (induction d arbitrary: ups lat c)
  case Nil
  show ?case by simp
next
  case (Cons e d)
  show ?case
  proof (cases "effective_key env p (fst e)")
    case None
    with Cons show ?thesis by (simp add: loop_Cons_unresolved)
  next
    case (Some f)
    show ?thesis
    proof (cases rule: evaluate_cases [of env c f])
      case (raise x c')
      with Some show ?thesis by (simp add: loop_Cons_raise)
    next
      case (return t m c')
      with Some Cons show ?thesis by (simp add: loop_Cons_return Let_def)
    qed
  qed
qed

subsection \<open>The renames\<close>

lemma renames_map_fst:
  "map fst (renames env p d) =
     map fst (filter (\<lambda>kv. \<not> is_absolute env (fst kv) \<and> find_valid_path env p (fst kv) \<noteq> []) d)"
  by (simp add: renames_def comp_def)

lemma renames_keys: "fst ` set (renames env p d) \<subseteq> fst ` set d"
proof -
  have "fst ` set (renames env p d) = set (map fst (renames env p d))" by simp
  also have "\<dots> \<subseteq> set (map fst d)" unfolding renames_map_fst by auto
  finally show ?thesis by simp
qed

lemma renames_distinct: "distinct (map fst d) \<Longrightarrow> distinct (map fst (renames env p d))"
  by (simp add: renames_map_fst distinct_map_filter)

lemma renames_old:
  "(k, a) \<in> set (renames env p d) \<longleftrightarrow>
     k \<in> fst ` set d \<and> \<not> is_absolute env k \<and> find_valid_path env p k \<noteq> [] \<and>
     a = find_valid_path env p k"
  by (force simp: renames_def)

lemma apply_updates_ok:
  "distinct (map fst ups) \<Longrightarrow> fst ` set ups \<subseteq> fst ` set d \<Longrightarrow>
   fst (apply_updates ko ups d) = None"
proof (induction ups arbitrary: d)
  case Nil
  show ?case by simp
next
  case (Cons u ups)
  from Cons.prems have "fst u \<in> fst ` set d" by simp
  then obtain node where at: "map_of d (fst u) = Some node"
    by (cases "map_of d (fst u)") (auto simp: map_of_eq_None_iff)
  let ?d1 = "dict_erase (fst u) (dict_insert ko (snd u, node) d)"
  from Cons.prems have "fst ` set ups \<subseteq> fst ` set d" "fst u \<notin> fst ` set ups"
    by simp_all
  then have "fst ` set ups \<subseteq> fst ` set ?d1"
    unfolding keys_dict_erase keys_dict_insert by blast
  with Cons have "fst (apply_updates ko ups ?d1) = None" by simp
  with at show ?case by (simp add: dict_at_def)
qed

lemma apply_updates_distinct:
  "distinct (map fst d) \<Longrightarrow> distinct (map fst (snd (apply_updates ko ups d)))"
  by (induction ups arbitrary: d)
     (auto simp: distinct_dict_erase distinct_dict_insert split: sum.splits)

lemma find_snd_in:
  "find (\<lambda>u. snd u = k) ups = Some u \<Longrightarrow> u \<in> set ups \<and> snd u = k"
  by (induction ups) (auto split: if_splits)

lemma find_snd_None:
  "find (\<lambda>u. snd u = k) ups = None \<longleftrightarrow> k \<notin> snd ` set ups"
  by (induction ups) auto

lemma apply_updates_map:
  "distinct (map fst ups) \<Longrightarrow> fst ` set ups \<subseteq> fst ` set d \<Longrightarrow>
   fst ` set ups \<inter> snd ` set ups = {} \<Longrightarrow>
   map_of (snd (apply_updates ko ups d)) k =
     (if k \<in> fst ` set ups then None
      else case map_of d k of
             Some n \<Rightarrow> Some n
           | None \<Rightarrow>
               (case find (\<lambda>u. snd u = k) ups of
                  Some u \<Rightarrow> map_of d (fst u)
                | None \<Rightarrow> None))"
proof (induction ups arbitrary: d)
  case Nil
  show ?case by (cases "map_of d k") simp_all
next
  case (Cons u ups)
  obtain old new where u: "u = (old, new)" by (cases u)
  from Cons.prems(1) u have pre1: "distinct (map fst ups)" and o1: "old \<notin> fst ` set ups"
    by simp_all
  from Cons.prems(2) u have sub: "fst ` set ups \<subseteq> fst ` set d" and o2: "old \<in> fst ` set d"
    by simp_all
  from Cons.prems(3) u
  have dis: "insert old (fst ` set ups) \<inter> insert new (snd ` set ups) = {}"
    by (simp only: list.set image_insert fst_conv snd_conv)
  then have pre3: "fst ` set ups \<inter> snd ` set ups = {}"
    and o3: "old \<noteq> new" and o4: "old \<notin> snd ` set ups" and o5: "new \<notin> fst ` set ups"
    by blast+
  from o2 obtain node where at: "map_of d old = Some node"
    by (cases "map_of d old") (simp_all add: map_of_eq_None_iff)
  let ?d1 = "dict_erase old (dict_insert ko (new, node) d)"
  have m1: "map_of ?d1 k' =
      (if k' = old then None
       else case map_of d k' of Some x \<Rightarrow> Some x | None \<Rightarrow> if k' = new then Some node else None)"
    for k'
    by (simp add: map_of_dict_erase map_of_dict_insert)
  from sub o1 have pre2: "fst ` set ups \<subseteq> fst ` set ?d1"
    unfolding keys_dict_erase keys_dict_insert by blast
  have keep: "map_of ?d1 (fst v) = map_of d (fst v)" if "v \<in> set ups" for v
  proof -
    from that sub have "fst v \<in> fst ` set d" by blast
    then have "map_of d (fst v) \<noteq> None" by (simp only: map_of_eq_None_iff not_not)
    then obtain x where x: "map_of d (fst v) = Some x" by blast
    from that o1 have "fst v \<noteq> old" by blast
    with x show ?thesis by (simp add: m1)
  qed
  have step: "snd (apply_updates ko (u # ups) d) = snd (apply_updates ko ups ?d1)"
    using at u by (simp add: dict_at_def)
  note ih = Cons.IH [OF pre1 pre2 pre3]
  have mem: "k \<in> fst ` set (u # ups) \<longleftrightarrow> k = old \<or> k \<in> fst ` set ups"
    by (simp add: u)
  have fnd: "find (\<lambda>u. snd u = k) (u # ups) =
      (if new = k then Some (old, new) else find (\<lambda>u. snd u = k) ups)"
    by (simp add: u)
  show ?case
  proof (cases "k = old")
    case True
    from True o1 have n: "(k \<in> fst ` set ups) = False" by simp
    from True have m: "(k = old) = True" by simp
    from True have a: "map_of ?d1 k = None" by (simp add: m1)
    from True o4 have "k \<notin> snd ` set ups" by simp
    then have b: "find (\<lambda>u. snd u = k) ups = None"
      by (rule find_snd_None [THEN iffD2])
    show ?thesis
      unfolding step ih mem
      by (simp only: a b n m if_False if_True option.case simp_thms)
  next
    case False
    show ?thesis
    proof (cases "k \<in> fst ` set ups")
      case True
      then show ?thesis unfolding step ih mem by simp
    next
      case notold: False
      show ?thesis
      proof (cases "map_of d k")
        case (Some n)
        with False notold show ?thesis unfolding step ih mem by (simp add: m1)
      next
        case None
        show ?thesis
        proof (cases "k = new")
          case True
          with None False notold at show ?thesis unfolding step ih mem fnd by (simp add: m1)
        next
          case knew: False
          show ?thesis
          proof (cases "find (\<lambda>u. snd u = k) ups")
            case fnone: None
            with None False notold knew show ?thesis
              unfolding step ih mem fnd by (simp add: m1)
          next
            case (Some v)
            then have "v \<in> set ups" by (blast dest: find_snd_in)
            then have b: "map_of ?d1 (fst v) = map_of d (fst v)" by (rule keep)
            from None False knew have a: "map_of ?d1 k = None" by (simp add: m1)
            from knew have c: "(new = k) = False" by auto
            show ?thesis
              unfolding step ih mem fnd
              by (simp only: a b c None Some notold False if_False option.case simp_thms)
          qed
        qed
      qed
    qed
  qed
qed

subsection \<open>The pass as a whole\<close>

lemma unguarded: "\<not> is_handling_dependencies fm \<Longrightarrow> fm\<lparr>is_handling_dependencies := False\<rparr> = fm"
  by (cases fm) simp

lemma handleDependencies_raise:
  "\<not> is_handling_dependencies fm \<Longrightarrow>
   first_raise env (path fm) (externalDict fm) c = Some x \<Longrightarrow>
   handleDependencies env fm c =
     (Inl x, fm\<lparr>is_handling_dependencies := True\<rparr>,
      fst (snd (snd (snd (dependencies_loop env (path fm) (externalDict fm) [] 0 c)))),
      snd (snd (snd (snd (dependencies_loop env (path fm) (externalDict fm) [] 0 c)))))"
  using loop_exn [of env "path fm" "externalDict fm" "[]" 0 c]
  by (cases "dependencies_loop env (path fm) (externalDict fm) [] 0 c")
     (simp add: handleDependencies_def)

lemma handleDependencies_return:
  assumes "\<not> is_handling_dependencies fm"
    and "distinct (map fst (externalDict fm))"
    and "first_raise env (path fm) (externalDict fm) c = None"
  shows "handleDependencies env fm c =
     (Inr (Max (set (0 # map e_mtime (evaluations env (path fm) (externalDict fm) c)))),
      fm\<lparr>externalDict :=
           snd (apply_updates (key_order env) (renames env (path fm) (externalDict fm)) (externalDict fm))\<rparr>,
      fst (snd (snd (snd (dependencies_loop env (path fm) (externalDict fm) [] 0 c)))),
      snd (snd (snd (snd (dependencies_loop env (path fm) (externalDict fm) [] 0 c)))))"
proof -
  let ?r = "dependencies_loop env (path fm) (externalDict fm) [] 0 c"
  let ?ups = "renames env (path fm) (externalDict fm)"
  obtain x ups lat c' evs where r: "?r = (x, ups, lat, c', evs)" by (cases ?r)
  from assms(3) have none: "fst ?r = None" by (simp add: loop_exn)
  with r have x: "x = None" by simp
  from loop_updates [OF none] r have ups: "ups = ?ups" by simp
  from loop_latest [OF none] r
  have lat: "lat = Max (set (0 # map e_mtime (evaluations env (path fm) (externalDict fm) c)))"
    by simp
  from assms(2) have "fst (apply_updates (key_order env) ?ups (externalDict fm)) = None"
    by (intro apply_updates_ok renames_distinct renames_keys)
  then obtain d where d: "apply_updates (key_order env) ?ups (externalDict fm) = (None, d)"
    by (cases "apply_updates (key_order env) ?ups (externalDict fm)") simp
  have "fm\<lparr>is_handling_dependencies := True\<rparr>\<lparr>externalDict := d, is_handling_dependencies := False\<rparr> =
     fm\<lparr>externalDict := d\<rparr>"
    using assms(1) by (cases fm) simp
  with assms(1) r x ups lat d show ?thesis
    by (simp add: handleDependencies_def)
qed

lemma handleDependencies_Inr:
  "\<not> is_handling_dependencies fm \<Longrightarrow> fst (handleDependencies env fm c) = Inr t \<Longrightarrow>
   first_raise env (path fm) (externalDict fm) c = None"
  using handleDependencies_raise [of fm env c]
  by (cases "first_raise env (path fm) (externalDict fm) c") auto

lemma handleDependencies_guard_Inl:
  "\<not> is_handling_dependencies fm \<Longrightarrow> fst (handleDependencies env fm c) = Inl x \<Longrightarrow>
   is_handling_dependencies (fst (snd (handleDependencies env fm c)))"
  by (auto simp: handleDependencies_def Let_def split: prod.splits option.splits)

lemma handleDependencies_guard_Inr:
  "\<not> is_handling_dependencies fm \<Longrightarrow> fst (handleDependencies env fm c) = Inr t \<Longrightarrow>
   \<not> is_handling_dependencies (fst (snd (handleDependencies env fm c)))"
  by (auto simp: handleDependencies_def Let_def split: prod.splits option.splits)


text \<open>
  C10: the guard is cleared on the normal exit only. A pass that starts with the guard
  clear and in which \<^verbatim>\<open>evaluate\<close> raises ends with that exception; whenever a pass ends with
  an exception (from \<^verbatim>\<open>evaluate\<close> or from \<^verbatim>\<open>at\<close>), the guard is left set, and every later
  call, whatever the file system and the cache are then, returns 0 at once and changes
  nothing. A pass that returns leaves the guard clear.
\<close>

theorem handleDependencies_guard_stays_set:
  "\<not> is_handling_dependencies fm \<Longrightarrow>
   (first_raise env (path fm) (externalDict fm) c = Some x \<longrightarrow>
      fst (handleDependencies env fm c) = Inl x) \<and>
   (fst (handleDependencies env fm c) = Inl x \<longrightarrow>
      is_handling_dependencies (fst (snd (handleDependencies env fm c))) \<and>
      handleDependencies env2 (fst (snd (handleDependencies env fm c))) c2 =
        (Inr 0, fst (snd (handleDependencies env fm c)), c2, [])) \<and>
   (fst (handleDependencies env fm c) = Inr t \<longrightarrow>
      \<not> is_handling_dependencies (fst (snd (handleDependencies env fm c))))"
proof (intro conjI impI)
  assume g: "\<not> is_handling_dependencies fm"
  {
    assume "first_raise env (path fm) (externalDict fm) c = Some x"
    with g show "fst (handleDependencies env fm c) = Inl x"
      by (simp add: handleDependencies_raise)
  }
  {
    assume i: "fst (handleDependencies env fm c) = Inl x"
    with g show s: "is_handling_dependencies (fst (snd (handleDependencies env fm c)))"
      by (rule handleDependencies_guard_Inl)
    then show "handleDependencies env2 (fst (snd (handleDependencies env fm c))) c2 =
        (Inr 0, fst (snd (handleDependencies env fm c)), c2, [])"
      by (simp add: handleDependencies_def)
  }
  {
    assume "fst (handleDependencies env fm c) = Inr t"
    with g show "\<not> is_handling_dependencies (fst (snd (handleDependencies env fm c)))"
      by (rule handleDependencies_guard_Inr)
  }
qed

theorem handleDependencies_guard_stays_set_witness:
  "\<not> is_handling_dependencies
      (example_module [UseNode ''/proj/lib/b''] [(''/proj/lib/b'', UseNode ''/proj/lib/b'')] False) \<and>
   first_raise (raising_env [(''/proj/lib/b'', 7, Some 1)]) ''/proj''
     [(''/proj/lib/b'', UseNode ''/proj/lib/b'')] [] = Some (OtherException ''bad_alloc'') \<and>
   handleDependencies (raising_env [(''/proj/lib/b'', 7, Some 1)])
     (example_module [UseNode ''/proj/lib/b''] [(''/proj/lib/b'', UseNode ''/proj/lib/b'')] False) [] =
     (Inl (OtherException ''bad_alloc''),
      example_module [UseNode ''/proj/lib/b''] [(''/proj/lib/b'', UseNode ''/proj/lib/b'')] True,
      [], [CallEvaluate ''/proj/lib/b'']) \<and>
   handleDependencies (example_env [(''/proj/lib/b'', 7, Some 1)])
     (example_module [UseNode ''/proj/lib/b''] [(''/proj/lib/b'', UseNode ''/proj/lib/b'')] True) [] =
     (Inr 0,
      example_module [UseNode ''/proj/lib/b''] [(''/proj/lib/b'', UseNode ''/proj/lib/b'')] True,
      [], []) \<and>
   fst (handleDependencies (example_env [(''/proj/lib/b'', 7, Some 1)])
     (example_module [UseNode ''/proj/lib/b''] [(''/proj/lib/b'', UseNode ''/proj/lib/b'')] False) []) =
     Inr 7 \<and>
   \<not> is_handling_dependencies (fst (snd (handleDependencies (example_env [(''/proj/lib/b'', 7, Some 1)])
     (example_module [UseNode ''/proj/lib/b''] [(''/proj/lib/b'', UseNode ''/proj/lib/b'')] False) [])))"
proof -
  let ?fs = "[(''/proj/lib/b'', 7, Some 1)] :: files"
  let ?d = "[(''/proj/lib/b'', UseNode ''/proj/lib/b'')]"
  let ?fm = "example_module [UseNode ''/proj/lib/b''] ?d False"
  let ?fm' = "example_module [UseNode ''/proj/lib/b''] ?d True"
  let ?x = "OtherException ''bad_alloc''"
  have g: "\<not> is_handling_dependencies ?fm" and p: "path ?fm = ''/proj''"
    and d: "externalDict ?fm = ?d"
    by (simp_all add: example_module_def)
  have r: "first_raise (raising_env ?fs) ''/proj'' ?d [] = Some ?x"
    by code_simp
  have e: "handleDependencies (raising_env ?fs) ?fm [] = (Inl ?x, ?fm', [], [CallEvaluate ''/proj/lib/b''])"
    by code_simp
  have n: "fst (handleDependencies (example_env ?fs) ?fm []) = Inr 7"
    by code_simp
  note t1 = handleDependencies_guard_stays_set [OF g, of "raising_env ?fs" "[]" ?x "example_env ?fs" "[]"]
  note t2 = handleDependencies_guard_stays_set [OF g, of "example_env ?fs" "[]" _ _ _ 7]
  from r p d have r': "first_raise (raising_env ?fs) (path ?fm) (externalDict ?fm) [] = Some ?x"
    by (simp only:)
  from t1 [THEN conjunct1, THEN mp, OF r']
  have i: "fst (handleDependencies (raising_env ?fs) ?fm []) = Inl ?x" .
  from t1 [THEN conjunct2, THEN conjunct1, THEN mp, OF i, THEN conjunct2]
  have a: "handleDependencies (example_env ?fs) ?fm' [] = (Inr 0, ?fm', [], [])"
    by (simp only: e fst_conv snd_conv)
  from t2 [THEN conjunct2, THEN conjunct2, THEN mp, OF n]
  have b: "\<not> is_handling_dependencies (fst (snd (handleDependencies (example_env ?fs) ?fm [])))" .
  from g r e a n b show ?thesis by (intro conjI)
qed

subsection \<open>The evaluations of a pass\<close>

lemma evaluations_keys:
  "first_raise env p d c = None \<Longrightarrow>
   map e_key (evaluations env p d c) =
     filter (\<lambda>k. effective_key env p k \<noteq> None) (map fst d) \<and>
   map (\<lambda>e. Some (e_filename e)) (evaluations env p d c) =
     map (effective_key env p) (filter (\<lambda>k. effective_key env p k \<noteq> None) (map fst d))"
proof (induction d arbitrary: c)
  case Nil
  show ?case by simp
next
  case (Cons e d)
  show ?case
  proof (cases "effective_key env p (fst e)")
    case None
    with Cons show ?thesis by (simp add: evaluations_Cons_unresolved)
  next
    case (Some f)
    show ?thesis
    proof (cases rule: evaluate_cases [of env c f])
      case (raise x c')
      with Some Cons.prems show ?thesis by simp
    next
      case (return t m c')
      with Some Cons show ?thesis by (simp add: evaluations_Cons_return)
    qed
  qed
qed

lemma evaluations_filter:
  "evaluations env p (filter (has_effective_key env p) d) c =
     evaluations env p d c"
proof (induction d arbitrary: c)
  case Nil
  show ?case by simp
next
  case (Cons e d)
  show ?case
  proof (cases "effective_key env p (fst e)")
    case None
    with Cons show ?thesis by (simp add: evaluations_Cons_unresolved has_effective_key_def)
  next
    case (Some f)
    show ?thesis
    proof (cases rule: evaluate_cases [of env c f])
      case (raise x c')
      with Some show ?thesis by (simp add: evaluations_Cons_raise has_effective_key_def)
    next
      case (return t m c')
      with Some Cons show ?thesis by (simp add: evaluations_Cons_return has_effective_key_def)
    qed
  qed
qed

lemma first_raise_filter:
  "first_raise env p (filter (has_effective_key env p) d) c =
     first_raise env p d c"
proof (induction d arbitrary: c)
  case Nil
  show ?case by simp
next
  case (Cons e d)
  show ?case
  proof (cases "effective_key env p (fst e)")
    case None
    with Cons show ?thesis by (simp add: has_effective_key_def)
  next
    case (Some f)
    show ?thesis
    proof (cases rule: evaluate_cases [of env c f])
      case (raise x c')
      with Some show ?thesis by (simp add: has_effective_key_def)
    next
      case (return t m c')
      with Some Cons show ?thesis by (simp add: has_effective_key_def)
    qed
  qed
qed

text \<open>
  C1 (amended): a pass that starts with the guard clear, on an index with distinct keys,
  and in which \<^verbatim>\<open>evaluate\<close> does not raise, returns the greatest of 0 and the modification
  times returned by \<^verbatim>\<open>evaluate\<close>. There is one evaluation for each entry that has an
  absolute key or obtains one in this pass, in the order of the entries, on the path that
  is its effective key. On an empty index the result is 0. An entry whose key is relative
  and is not resolved contributes nothing: without these entries the result is the same.
\<close>

theorem handleDependencies_latest:
  assumes "\<not> is_handling_dependencies fm"
    and "distinct (map fst (externalDict fm))"
    and "first_raise env (path fm) (externalDict fm) c = None"
  shows "fst (handleDependencies env fm c) =
           Inr (Max (set (0 # map e_mtime (evaluations env (path fm) (externalDict fm) c)))) \<and>
         map e_key (evaluations env (path fm) (externalDict fm) c) =
           filter (\<lambda>k. effective_key env (path fm) k \<noteq> None) (map fst (externalDict fm)) \<and>
         map (\<lambda>e. Some (e_filename e)) (evaluations env (path fm) (externalDict fm) c) =
           map (effective_key env (path fm))
             (filter (\<lambda>k. effective_key env (path fm) k \<noteq> None) (map fst (externalDict fm))) \<and>
         (externalDict fm = [] \<longrightarrow> fst (handleDependencies env fm c) = Inr 0) \<and>
         fst (handleDependencies env
                (fm\<lparr>externalDict := filter (has_effective_key env (path fm)) (externalDict fm)\<rparr>) c) =
           fst (handleDependencies env fm c)"
proof -
  let ?d = "externalDict fm"
  let ?fm' = "fm\<lparr>externalDict := filter (has_effective_key env (path fm)) ?d\<rparr>"
  have a: "fst (handleDependencies env fm c) =
      Inr (Max (set (0 # map e_mtime (evaluations env (path fm) ?d c))))"
    by (simp add: handleDependencies_return [OF assms])
  have b: "?d = [] \<longrightarrow> fst (handleDependencies env fm c) = Inr 0"
    by (simp add: a)
  have "\<not> is_handling_dependencies ?fm'" "distinct (map fst (externalDict ?fm'))"
    "first_raise env (path ?fm') (externalDict ?fm') c = None"
    using assms by (simp_all add: distinct_map_filter first_raise_filter)
  from handleDependencies_return [OF this]
  have c: "fst (handleDependencies env ?fm' c) = fst (handleDependencies env fm c)"
    by (simp add: a evaluations_filter)
  from a b c evaluations_keys [OF assms(3)] show ?thesis by blast
qed

theorem handleDependencies_latest_witness:
  "\<not> is_handling_dependencies (example_module []
      [(''/proj/c.scad'', UseNode ''/proj/c.scad''), (''lib/b'', UseNode ''lib/b''),
       (''missing.scad'', UseNode ''missing.scad'')] False) \<and>
   distinct (map fst (externalDict (example_module []
      [(''/proj/c.scad'', UseNode ''/proj/c.scad''), (''lib/b'', UseNode ''lib/b''),
       (''missing.scad'', UseNode ''missing.scad'')] False))) \<and>
   first_raise (example_env [(''/proj/lib/b'', 7, Some 1), (''/proj/c.scad'', 9, Some 2)]) ''/proj''
      [(''/proj/c.scad'', UseNode ''/proj/c.scad''), (''lib/b'', UseNode ''lib/b''),
       (''missing.scad'', UseNode ''missing.scad'')] [] = None \<and>
   map e_mtime (evaluations
      (example_env [(''/proj/lib/b'', 7, Some 1), (''/proj/c.scad'', 9, Some 2)]) ''/proj''
      [(''/proj/c.scad'', UseNode ''/proj/c.scad''), (''lib/b'', UseNode ''lib/b''),
       (''missing.scad'', UseNode ''missing.scad'')] []) = [9, 7] \<and>
   fst (handleDependencies
      (example_env [(''/proj/lib/b'', 7, Some 1), (''/proj/c.scad'', 9, Some 2)])
      (example_module []
        [(''/proj/c.scad'', UseNode ''/proj/c.scad''), (''lib/b'', UseNode ''lib/b''),
         (''missing.scad'', UseNode ''missing.scad'')] False) []) = Inr 9"
proof -
  let ?fs = "[(''/proj/lib/b'', 7, Some 1), (''/proj/c.scad'', 9, Some 2)] :: files"
  let ?d = "[(''/proj/c.scad'', UseNode ''/proj/c.scad''), (''lib/b'', UseNode ''lib/b''),
       (''missing.scad'', UseNode ''missing.scad'')]"
  let ?fm = "example_module [] ?d False"
  have g: "\<not> is_handling_dependencies ?fm" by (simp add: example_module_def)
  have p: "path ?fm = ''/proj''" and d: "externalDict ?fm = ?d"
    by (simp_all add: example_module_def)
  have k: "distinct (map fst (externalDict ?fm))" by code_simp
  have r: "first_raise (example_env ?fs) ''/proj'' ?d [] = None" by code_simp
  have m: "map e_mtime (evaluations (example_env ?fs) ''/proj'' ?d []) = [9, 7]" by code_simp
  from r p d have r': "first_raise (example_env ?fs) (path ?fm) (externalDict ?fm) [] = None"
    by (simp only:)
  from handleDependencies_latest [OF g k r', THEN conjunct1]
  have "fst (handleDependencies (example_env ?fs) ?fm []) =
      Inr (Max (set (0 # map e_mtime (evaluations (example_env ?fs) ''/proj'' ?d []))))"
    by (simp only: p d)
  then have a: "fst (handleDependencies (example_env ?fs) ?fm []) = Inr 9"
    by (simp only: m) simp
  from g k r m a show ?thesis by (intro conjI)
qed

text \<open>
  Against C1 as stated: when \<^verbatim>\<open>evaluate\<close> returns the time -1 for the only entry, the
  result is 0, a time that no evaluation returned.
\<close>

theorem handleDependencies_latest_counterexample:
  "map e_mtime (evaluations (example_env [(''/proj/lib/b'', - 1, Some 1)]) ''/proj''
      [(''/proj/lib/b'', UseNode ''/proj/lib/b'')] []) = [- 1] \<and>
   fst (handleDependencies (example_env [(''/proj/lib/b'', - 1, Some 1)])
      (example_module [] [(''/proj/lib/b'', UseNode ''/proj/lib/b'')] False) []) = Inr 0"
  by code_simp

subsection \<open>The failure warning\<close>














subsection \<open>Key promotion\<close>

lemma apply_updates_keeps:
  "k \<notin> fst ` set ups \<Longrightarrow> map_of d k = Some n \<Longrightarrow>
   map_of (snd (apply_updates ko ups d)) k = Some n"
proof (induction ups arbitrary: d)
  case Nil
  then show ?case by simp
next
  case (Cons u ups)
  from Cons.prems(1) have k: "k \<noteq> fst u" "k \<notin> fst ` set ups" by simp_all
  show ?case
  proof (cases "dict_at d (fst u)")
    case (Inl e)
    with Cons.prems(2) show ?thesis by simp
  next
    case (Inr node)
    let ?d1 = "dict_erase (fst u) (dict_insert ko (snd u, node) d)"
    from k(1) Cons.prems(2) have "map_of ?d1 k = Some n"
      by (simp add: map_of_dict_erase map_of_dict_insert)
    from Cons.IH [OF k(2) this] Inr show ?thesis by simp
  qed
qed

lemma pass_return:
  assumes g: "\<not> is_handling_dependencies fm"
    and pass: "handleDependencies env fm c = (Inr t, fm', c', evs)"
  shows "fm' = fm\<lparr>externalDict :=
                  snd (apply_updates (key_order env) (renames env (path fm) (externalDict fm)) (externalDict fm))\<rparr>"
    and "first_raise env (path fm) (externalDict fm) c = None"
    and "filter is_evaluate_call evs =
           map (\<lambda>e. CallEvaluate (e_filename e)) (evaluations env (path fm) (externalDict fm) c)"
    and "\<not> is_handling_dependencies fm'"
proof -
  let ?r = "dependencies_loop env (path fm) (externalDict fm) [] 0 c"
  from pass have i: "fst (handleDependencies env fm c) = Inr t" by simp
  from handleDependencies_Inr [OF g i]
  show fr: "first_raise env (path fm) (externalDict fm) c = None" .
  then have none: "fst ?r = None" by (simp add: loop_exn)
  obtain x ups lat c0 evs0 where r: "?r = (x, ups, lat, c0, evs0)" by (cases ?r)
  with none have x: "x = None" by simp
  from loop_updates [OF none] r have ups: "ups = renames env (path fm) (externalDict fm)" by simp
  obtain y d where a: "apply_updates (key_order env) ups (externalDict fm) = (y, d)"
    by (cases "apply_updates (key_order env) ups (externalDict fm)")
  from g pass r x a have y: "y = None"
    by (cases y) (simp_all add: handleDependencies_def)
  from g pass r x a y
  have "fm' = fm\<lparr>is_handling_dependencies := True\<rparr>\<lparr>externalDict := d, is_handling_dependencies := False\<rparr>"
    and evs: "evs = evs0"
    by (simp_all add: handleDependencies_def)
  moreover have "fm\<lparr>is_handling_dependencies := True\<rparr>\<lparr>externalDict := d, is_handling_dependencies := False\<rparr> =
     fm\<lparr>externalDict := d\<rparr>"
    using g by (cases fm) simp
  ultimately show "fm' = fm\<lparr>externalDict :=
                  snd (apply_updates (key_order env) (renames env (path fm) (externalDict fm)) (externalDict fm))\<rparr>"
    using a ups by simp
  with g show "\<not> is_handling_dependencies fm'" by simp
  from loop_calls [OF none] r evs
  show "filter is_evaluate_call evs =
           map (\<lambda>e. CallEvaluate (e_filename e)) (evaluations env (path fm) (externalDict fm) c)"
    by simp
qed

lemma evaluated:
  assumes "first_raise env p d c = None" and "k \<in> fst ` set d"
    and "effective_key env p k = Some a"
  shows "a \<in> e_filename ` set (evaluations env p d c)"
proof -
  from assms(2,3) have "Some a \<in> set (map (effective_key env p)
      (filter (\<lambda>k. effective_key env p k \<noteq> None) (map fst d)))"
    by force
  with evaluations_keys [OF assms(1)]
  have "Some a \<in> set (map (\<lambda>e. Some (e_filename e)) (evaluations env p d c))"
    by simp
  then show ?thesis by auto
qed

lemma resolves_absoluteD:
  "resolves_absolute env p d \<Longrightarrow> k \<in> fst ` set d \<Longrightarrow> find_valid_path env p k \<noteq> [] \<Longrightarrow>
   is_absolute env (find_valid_path env p k)"
  by (auto simp: resolves_absolute_def list_all_iff)

lemma renames_disjoint:
  assumes "resolves_absolute env p d"
  shows "fst ` set (renames env p d) \<inter> snd ` set (renames env p d) = {}"
proof -
  have False if a: "x \<in> fst ` set (renames env p d)" and b: "x \<in> snd ` set (renames env p d)" for x
  proof -
    from a obtain y where "(x, y) \<in> set (renames env p d)" by force
    then have rel: "\<not> is_absolute env x" by (simp add: renames_old)
    from b obtain k where "(k, x) \<in> set (renames env p d)" by force
    then have "k \<in> fst ` set d" "find_valid_path env p k \<noteq> []" "x = find_valid_path env p k"
      by (simp_all add: renames_old)
    with assms have "is_absolute env x" by (simp add: resolves_absoluteD)
    with rel show False by simp
  qed
  then show ?thesis by blast
qed

lemma pass_map:
  assumes g: "\<not> is_handling_dependencies fm"
    and dist: "distinct (map fst (externalDict fm))"
    and abs: "resolves_absolute env (path fm) (externalDict fm)"
    and pass: "handleDependencies env fm c = (Inr t, fm', c', evs)"
  shows "map_of (externalDict fm') k = promoted env (path fm) (externalDict fm) k"
proof -
  let ?d = "externalDict fm"
  let ?ups = "renames env (path fm) ?d"
  from pass_return(1) [OF g pass]
  have "externalDict fm' = snd (apply_updates (key_order env) ?ups ?d)" by simp
  moreover have "map_of (snd (apply_updates (key_order env) ?ups ?d)) k = promoted env (path fm) ?d k"
    unfolding promoted_def set_map
    by (rule apply_updates_map [OF renames_distinct [OF dist] renames_keys renames_disjoint [OF abs]])
  ultimately show ?thesis by simp
qed

lemma promoted_kept:
  assumes "map_of d k = Some n"
    and "is_absolute env k \<or> find_valid_path env p k = []"
  shows "promoted env p d k = Some n"
proof -
  from assms(2) have "k \<notin> fst ` set (renames env p d)"
    by (auto simp: renames_old)
  with assms(1) show ?thesis by (simp add: promoted_def)
qed

lemma promoted_renamed:
  assumes abs: "resolves_absolute env p d"
    and k: "k \<in> fst ` set d" "\<not> is_absolute env k" "find_valid_path env p k \<noteq> []"
  shows "promoted env p d k = None"
    and "promoted env p d (find_valid_path env p k) \<noteq> None"
    and "map_of d k = Some n \<Longrightarrow> map_of d (find_valid_path env p k) = None \<Longrightarrow>
         (\<And>k2. k2 \<in> fst ` set d \<Longrightarrow> \<not> is_absolute env k2 \<Longrightarrow>
            find_valid_path env p k2 = find_valid_path env p k \<Longrightarrow> k2 = k) \<Longrightarrow>
         promoted env p d (find_valid_path env p k) = Some n"
proof -
  let ?a = "find_valid_path env p k"
  let ?ups = "renames env p d"
  from k have mem: "(k, ?a) \<in> set ?ups" by (simp add: renames_old)
  then have "k \<in> fst ` set ?ups" by force
  then show "promoted env p d k = None" by (simp add: promoted_def)
  from abs k have "is_absolute env ?a" by (simp add: resolves_absoluteD)
  then have notold: "?a \<notin> fst ` set ?ups" by (auto simp: renames_old)
  from mem have "?a \<in> snd ` set ?ups" by force
  then obtain u where u: "find (\<lambda>u. snd u = ?a) ?ups = Some u"
    by (cases "find (\<lambda>u. snd u = ?a) ?ups") (simp_all add: find_snd_None)
  then have uin: "u \<in> set ?ups" and usnd: "snd u = ?a" by (blast dest: find_snd_in)+
  from uin have "(fst u, snd u) \<in> set ?ups" by simp
  then have "fst u \<in> fst ` set d \<and> \<not> is_absolute env (fst u) \<and>
      find_valid_path env p (fst u) \<noteq> [] \<and> snd u = find_valid_path env p (fst u)"
    by (rule renames_old [THEN iffD1])
  then have fu: "fst u \<in> fst ` set d" "\<not> is_absolute env (fst u)"
    "snd u = find_valid_path env p (fst u)"
    by blast+
  from fu(1) have some: "map_of d (fst u) \<noteq> None" by (simp only: map_of_eq_None_iff not_not)
  have red: "promoted env p d ?a =
      (case map_of d ?a of Some n \<Rightarrow> Some n | None \<Rightarrow> map_of d (fst u))"
    using notold u by (cases "map_of d ?a") (simp_all add: promoted_def)
  from some show "promoted env p d ?a \<noteq> None"
    unfolding red by (cases "map_of d ?a") simp_all
  show "promoted env p d ?a = Some n"
    if n: "map_of d k = Some n" and free: "map_of d ?a = None"
      and uniq: "\<And>k2. k2 \<in> fst ` set d \<Longrightarrow> \<not> is_absolute env k2 \<Longrightarrow>
            find_valid_path env p k2 = ?a \<Longrightarrow> k2 = k"
  proof -
    from fu usnd have "fst u = k" by (intro uniq) simp_all
    with n free show ?thesis unfolding red by simp
  qed
qed

lemma pass_calls:
  assumes g: "\<not> is_handling_dependencies fm"
    and pass: "handleDependencies env fm c = (Inr t, fm', c', evs)"
    and k: "k \<in> fst ` set (externalDict fm)" "effective_key env (path fm) k = Some a"
  shows "CallEvaluate a \<in> set evs"
proof -
  from evaluated [OF pass_return(2) [OF g pass] k]
  have "CallEvaluate a \<in> set (map (\<lambda>e. CallEvaluate (e_filename e))
      (evaluations env (path fm) (externalDict fm) c))"
    by auto
  then have "CallEvaluate a \<in> set (filter is_evaluate_call evs)"
    by (simp only: pass_return(3) [OF g pass])
  then show ?thesis by simp
qed

lemma pass_keeps:
  assumes g: "\<not> is_handling_dependencies fm"
    and dist: "distinct (map fst (externalDict fm))"
    and pass: "handleDependencies env fm c = (Inr t, fm', c', evs)"
    and entry: "(k, n) \<in> set (externalDict fm)"
  shows "fm' = fm\<lparr>externalDict := externalDict fm'\<rparr>"
    and "distinct (map fst (externalDict fm'))"
    and "path fm' = path fm"
    and "is_absolute env k \<or> find_valid_path env (path fm) k = [] \<Longrightarrow>
         map_of (externalDict fm') k = Some n"
proof -
  let ?d = "externalDict fm"
  let ?ups = "renames env (path fm) ?d"
  note r = pass_return(1) [OF g pass]
  from r show "fm' = fm\<lparr>externalDict := externalDict fm'\<rparr>" by simp
  from r have d': "externalDict fm' = snd (apply_updates (key_order env) ?ups ?d)" by simp
  from dist show "distinct (map fst (externalDict fm'))"
    unfolding d' by (rule apply_updates_distinct)
  from r show "path fm' = path fm" by simp
  from dist entry have n: "map_of ?d k = Some n" by simp
  show "map_of (externalDict fm') k = Some n"
    if "is_absolute env k \<or> find_valid_path env (path fm) k = []"
  proof -
    from that have "k \<notin> fst ` set ?ups" by (auto simp: renames_old)
    from apply_updates_keeps [OF this n] show ?thesis by (simp only: d')
  qed
qed

lemma pass_promotes:
  assumes g: "\<not> is_handling_dependencies fm"
    and dist: "distinct (map fst (externalDict fm))"
    and pass: "handleDependencies env fm c = (Inr t, fm', c', evs)"
    and entry: "(k, n) \<in> set (externalDict fm)"
    and abs: "resolves_absolute env (path fm) (externalDict fm)"
    and k: "\<not> is_absolute env k" "find_valid_path env (path fm) k \<noteq> []"
  shows "map_of (externalDict fm') k = None"
    and "map_of (externalDict fm') (find_valid_path env (path fm) k) \<noteq> None"
    and "CallEvaluate (find_valid_path env (path fm) k) \<in> set evs"
    and "map_of (externalDict fm) (find_valid_path env (path fm) k) = None \<Longrightarrow>
         (\<And>k2. k2 \<in> fst ` set (externalDict fm) \<Longrightarrow> \<not> is_absolute env k2 \<Longrightarrow>
            find_valid_path env (path fm) k2 = find_valid_path env (path fm) k \<Longrightarrow> k2 = k) \<Longrightarrow>
         map_of (externalDict fm') (find_valid_path env (path fm) k) = Some n"
proof -
  let ?d = "externalDict fm"
  note m = pass_map [OF g dist abs pass]
  from entry have kin: "k \<in> fst ` set ?d" by force
  from dist entry have n: "map_of ?d k = Some n" by simp
  note p = promoted_renamed [OF abs kin k]
  from p(1) show "map_of (externalDict fm') k = None" by (simp only: m)
  from p(2) show "map_of (externalDict fm') (find_valid_path env (path fm) k) \<noteq> None"
    unfolding m .
  from k have "effective_key env (path fm) k = Some (find_valid_path env (path fm) k)"
    by (simp add: effective_key_def)
  from pass_calls [OF g pass kin this]
  show "CallEvaluate (find_valid_path env (path fm) k) \<in> set evs" .
  show "map_of (externalDict fm') (find_valid_path env (path fm) k) = Some n"
    if free: "map_of ?d (find_valid_path env (path fm) k) = None"
      and uniq: "\<And>k2. k2 \<in> fst ` set ?d \<Longrightarrow> \<not> is_absolute env k2 \<Longrightarrow>
            find_valid_path env (path fm) k2 = find_valid_path env (path fm) k \<Longrightarrow> k2 = k"
  proof -
    have "promoted env (path fm) ?d (find_valid_path env (path fm) k) = Some n"
      using n free
    proof (rule p(3))
      fix k2
      assume "k2 \<in> fst ` set ?d" "\<not> is_absolute env k2"
        "find_valid_path env (path fm) k2 = find_valid_path env (path fm) k"
      then show "k2 = k" by (rule uniq)
    qed
    then show ?thesis by (simp only: m)
  qed
qed

text \<open>
  C3 (amended): after a completed pass on an index with distinct keys, nothing but the
  index has changed and its keys are distinct. An entry whose key is absolute, or relative
  and not resolved, keeps its key and its node. When the paths found for the keys are
  absolute, the index is the one described by \<open>promoted\<close>: an entry whose relative key is
  resolved loses that key, the resolved path is a key, and \<^verbatim>\<open>evaluate\<close> is called on it;
  the path holds the entry's own node when it was no key before and no other relative key
  resolves to it (otherwise the node that is there first is kept). So an entry that is
  not resolved in one pass and is resolved in the next (its file has been created
  between them) keeps its key in the first, and in the second it is promoted to the
  resolved path and evaluated.
\<close>

theorem handleDependencies_promotes_keys:
  assumes g: "\<not> is_handling_dependencies fm"
    and dist: "distinct (map fst (externalDict fm))"
    and pass: "handleDependencies env fm c = (Inr t, fm', c', evs)"
    and entry: "(k, n) \<in> set (externalDict fm)"
  shows "fm' = fm\<lparr>externalDict := externalDict fm'\<rparr> \<and>
    distinct (map fst (externalDict fm')) \<and>
    (is_absolute env k \<or> find_valid_path env (path fm) k = [] \<longrightarrow>
       map_of (externalDict fm') k = Some n) \<and>
    (resolves_absolute env (path fm) (externalDict fm) \<longrightarrow>
       (\<forall>x. map_of (externalDict fm') x = promoted env (path fm) (externalDict fm) x) \<and>
       (\<not> is_absolute env k \<and> find_valid_path env (path fm) k \<noteq> [] \<longrightarrow>
          map_of (externalDict fm') k = None \<and>
          map_of (externalDict fm') (find_valid_path env (path fm) k) \<noteq> None \<and>
          CallEvaluate (find_valid_path env (path fm) k) \<in> set evs \<and>
          (map_of (externalDict fm) (find_valid_path env (path fm) k) = None \<and>
           (\<forall>k2 \<in> fst ` set (externalDict fm).
              \<not> is_absolute env k2 \<and>
              find_valid_path env (path fm) k2 = find_valid_path env (path fm) k \<longrightarrow> k2 = k) \<longrightarrow>
           map_of (externalDict fm') (find_valid_path env (path fm) k) = Some n))) \<and>
    (\<not> is_absolute env k \<and> find_valid_path env (path fm) k = [] \<and>
     handleDependencies env2 fm' c2 = (Inr t2, fm2, c2', evs2) \<and>
     resolves_absolute env2 (path fm) (externalDict fm') \<and>
     \<not> is_absolute env2 k \<and> find_valid_path env2 (path fm) k \<noteq> [] \<longrightarrow>
       map_of (externalDict fm') k = Some n \<and>
       map_of (externalDict fm2) k = None \<and>
       map_of (externalDict fm2) (find_valid_path env2 (path fm) k) \<noteq> None \<and>
       CallEvaluate (find_valid_path env2 (path fm) k) \<in> set evs2)"
proof (intro conjI impI allI)
  note keep = pass_keeps [OF g dist pass entry]
  show "fm' = fm\<lparr>externalDict := externalDict fm'\<rparr>" by (rule keep(1))
  show "distinct (map fst (externalDict fm'))" by (rule keep(2))
  show "map_of (externalDict fm') k = Some n"
    if "is_absolute env k \<or> find_valid_path env (path fm) k = []"
    using that by (rule keep(4))
  {
    assume abs: "resolves_absolute env (path fm) (externalDict fm)"
    show "map_of (externalDict fm') x = promoted env (path fm) (externalDict fm) x" for x
      by (rule pass_map [OF g dist abs pass])
    assume k: "\<not> is_absolute env k \<and> find_valid_path env (path fm) k \<noteq> []"
    note p = pass_promotes [OF g dist pass entry abs k [THEN conjunct1] k [THEN conjunct2]]
    show "map_of (externalDict fm') k = None" by (rule p(1))
    show "map_of (externalDict fm') (find_valid_path env (path fm) k) \<noteq> None" by (rule p(2))
    show "CallEvaluate (find_valid_path env (path fm) k) \<in> set evs" by (rule p(3))
    assume u: "map_of (externalDict fm) (find_valid_path env (path fm) k) = None \<and>
           (\<forall>k2 \<in> fst ` set (externalDict fm).
              \<not> is_absolute env k2 \<and>
              find_valid_path env (path fm) k2 = find_valid_path env (path fm) k \<longrightarrow> k2 = k)"
    then have "k2 = k" if "k2 \<in> fst ` set (externalDict fm)" "\<not> is_absolute env k2"
      "find_valid_path env (path fm) k2 = find_valid_path env (path fm) k" for k2
      using that by blast
    with u show "map_of (externalDict fm') (find_valid_path env (path fm) k) = Some n"
      by (intro p(4)) simp_all
  }
  {
    assume h: "\<not> is_absolute env k \<and> find_valid_path env (path fm) k = [] \<and>
     handleDependencies env2 fm' c2 = (Inr t2, fm2, c2', evs2) \<and>
     resolves_absolute env2 (path fm) (externalDict fm') \<and>
     \<not> is_absolute env2 k \<and> find_valid_path env2 (path fm) k \<noteq> []"
    then have kept: "map_of (externalDict fm') k = Some n" by (intro keep(4)) simp
    then show "map_of (externalDict fm') k = Some n" .
    from kept have entry': "(k, n) \<in> set (externalDict fm')" by (rule map_of_SomeD)
    from pass_return(4) [OF g pass] have g': "\<not> is_handling_dependencies fm'" .
    from h have pass2: "handleDependencies env2 fm' c2 = (Inr t2, fm2, c2', evs2)"
      and abs2: "resolves_absolute env2 (path fm') (externalDict fm')"
      and k2: "\<not> is_absolute env2 k" "find_valid_path env2 (path fm') k \<noteq> []"
      by (simp_all add: keep(3))
    note p = pass_promotes [OF g' keep(2) pass2 entry' abs2 k2]
    from p(1) show "map_of (externalDict fm2) k = None" .
    from p(2) show "map_of (externalDict fm2) (find_valid_path env2 (path fm) k) \<noteq> None"
      unfolding keep(3) .
    from p(3) show "CallEvaluate (find_valid_path env2 (path fm) k) \<in> set evs2"
      by (simp only: keep(3))
  }
qed

theorem handleDependencies_promotes_keys_witness:
  "\<not> is_handling_dependencies (example_module [UseNode ''lib/b''] [(''lib/b'', UseNode ''lib/b'')] False) \<and>
   distinct (map fst (externalDict
     (example_module [UseNode ''lib/b''] [(''lib/b'', UseNode ''lib/b'')] False))) \<and>
   (''lib/b'', UseNode ''lib/b'') \<in> set (externalDict
     (example_module [UseNode ''lib/b''] [(''lib/b'', UseNode ''lib/b'')] False)) \<and>
   \<not> is_absolute (example_env []) ''lib/b'' \<and>
   find_valid_path (example_env []) ''/proj'' ''lib/b'' = [] \<and>
   handleDependencies (example_env [])
     (example_module [UseNode ''lib/b''] [(''lib/b'', UseNode ''lib/b'')] False) [] =
     (Inr 0, example_module [UseNode ''lib/b''] [(''lib/b'', UseNode ''lib/b'')] False, [], []) \<and>
   resolves_absolute (example_env [(''/proj/lib/b'', 7, Some 1)]) ''/proj''
     [(''lib/b'', UseNode ''lib/b'')] \<and>
   find_valid_path (example_env [(''/proj/lib/b'', 7, Some 1)]) ''/proj'' ''lib/b'' = ''/proj/lib/b'' \<and>
   handleDependencies (example_env [(''/proj/lib/b'', 7, Some 1)])
     (example_module [UseNode ''lib/b''] [(''lib/b'', UseNode ''lib/b'')] False) [] =
     (Inr 7, example_module [UseNode ''lib/b''] [(''/proj/lib/b'', UseNode ''lib/b'')] False,
      [(''/proj/lib/b'', Some 1)],
      [CallEvaluate ''/proj/lib/b'', DebugChanged ''/proj/lib/b'' None (Some 1)]) \<and>
   map_of (externalDict
     (example_module [UseNode ''lib/b''] [(''/proj/lib/b'', UseNode ''lib/b'')] False)) ''lib/b'' = None \<and>
   map_of (externalDict
     (example_module [UseNode ''lib/b''] [(''/proj/lib/b'', UseNode ''lib/b'')] False))
     ''/proj/lib/b'' = Some (UseNode ''lib/b'') \<and>
   CallEvaluate ''/proj/lib/b'' \<in>
     set [CallEvaluate ''/proj/lib/b'', DebugChanged ''/proj/lib/b'' None (Some (1::nat))]"
proof -
  define k where "k = ''lib/b''"
  define a where "a = ''/proj/lib/b''"
  define n where "n = UseNode ''lib/b''"
  define fm where "fm = example_module [UseNode ''lib/b''] [(''lib/b'', UseNode ''lib/b'')] False"
  define fm2 where "fm2 = example_module [UseNode ''lib/b''] [(''/proj/lib/b'', UseNode ''lib/b'')] False"
  define env1 where "env1 = example_env []"
  define env2 where "env2 = example_env [(''/proj/lib/b'', 7, Some 1)]"
  define c0 where "c0 = ([] :: module_cache)"
  define c2 where "c2 = ([(''/proj/lib/b'', Some 1)] :: module_cache)"
  define evs2 where "evs2 = [CallEvaluate ''/proj/lib/b'', DebugChanged ''/proj/lib/b'' None (Some (1::nat))]"
  note defs = k_def a_def n_def fm_def fm2_def env1_def env2_def c0_def c2_def evs2_def
  have g: "\<not> is_handling_dependencies fm" unfolding defs by (simp add: example_module_def)
  have p: "path fm = ''/proj''" unfolding defs by (simp add: example_module_def)
  have d: "externalDict fm = [(k, n)]" unfolding defs by (simp add: example_module_def)
  have dist: "distinct (map fst (externalDict fm))" unfolding d by simp
  have entry: "(k, n) \<in> set (externalDict fm)" unfolding d by simp
  have r1: "\<not> is_absolute env1 k" unfolding defs by code_simp
  have f1: "find_valid_path env1 (path fm) k = []" unfolding p unfolding defs by code_simp
  have pass1: "handleDependencies env1 fm c0 = (Inr 0, fm, c0, [])" unfolding defs by code_simp
  have abs2: "resolves_absolute env2 (path fm) (externalDict fm)"
    unfolding p d unfolding defs by code_simp
  have r2: "\<not> is_absolute env2 k" unfolding defs by code_simp
  have f2: "find_valid_path env2 (path fm) k = a" unfolding p unfolding defs by code_simp
  have f2': "find_valid_path env2 (path fm) k \<noteq> []" unfolding p unfolding defs by code_simp
  have pass2: "handleDependencies env2 fm c0 = (Inr 7, fm2, c2, evs2)" unfolding defs by code_simp
  note t1 = handleDependencies_promotes_keys [OF g dist pass1 entry,
      of env2 c0 7 fm2 c2 evs2]
  note t2 = handleDependencies_promotes_keys [OF g dist pass2 entry]
  from t1 r1 f1 pass2 abs2 r2 f2'
  have two: "map_of (externalDict fm) k = Some n \<and>
       map_of (externalDict fm2) k = None \<and>
       map_of (externalDict fm2) (find_valid_path env2 (path fm) k) \<noteq> None \<and>
       CallEvaluate (find_valid_path env2 (path fm) k) \<in> set evs2"
    by blast
  have free: "map_of (externalDict fm) (find_valid_path env2 (path fm) k) = None"
    unfolding f2 d unfolding defs by simp
  have uniq: "\<forall>k2 \<in> fst ` set (externalDict fm).
              \<not> is_absolute env2 k2 \<and>
              find_valid_path env2 (path fm) k2 = find_valid_path env2 (path fm) k \<longrightarrow> k2 = k"
    unfolding d by simp
  note t2a = t2 [THEN conjunct2, THEN conjunct2, THEN conjunct2, THEN conjunct1, THEN mp, OF abs2]
  note t2b = t2a [THEN conjunct2, THEN mp, OF conjI [OF r2 f2']]
  note t2c = t2b [THEN conjunct2, THEN conjunct2, THEN conjunct2, THEN mp, OF conjI [OF free uniq]]
  from t2c have "map_of (externalDict fm2) (find_valid_path env2 (path fm) k) = Some n" .
  with two have res: "map_of (externalDict fm2) k = None" "map_of (externalDict fm2) a = Some n"
    "CallEvaluate a \<in> set evs2"
    unfolding f2 by simp_all
  from abs2 have abs2': "resolves_absolute env2 ''/proj'' [(k, n)]" unfolding p d .
  from f1 have f1': "find_valid_path env1 ''/proj'' k = []" unfolding p .
  from f2 have f2'': "find_valid_path env2 ''/proj'' k = a" unfolding p .
  from entry have entry': "(k, n) \<in> set (externalDict fm)" .
  from g dist entry' r1 f1' pass1 abs2' f2'' pass2 res
  show ?thesis unfolding defs by (intro conjI)
qed

text \<open>
  Against C3 as stated: a module that uses both \<^verbatim>\<open>/proj/lib/b\<close> and \<^verbatim>\<open>lib/b\<close> has both
  keys after \<^verbatim>\<open>resolveExternals\<close>. The pass resolves \<^verbatim>\<open>lib/b\<close> to \<^verbatim>\<open>/proj/lib/b\<close>, which is a
  key already: the insertion does nothing, the relative key is erased, and the node of
  the entry \<^verbatim>\<open>lib/b\<close> is in the index no more.
\<close>

theorem handleDependencies_promotes_keys_counterexample:
  "externalDict (fst (resolveExternals (example_env [(''/proj/lib/b'', 7, Some 1)])
      (addUseNode ''lib/b'' (addUseNode ''/proj/lib/b''
         (new_FileModule ''/proj'' ''/proj/a.scad'' ()))))) =
     [(''/proj/lib/b'', UseNode ''/proj/lib/b''), (''lib/b'', UseNode ''lib/b'')] \<and>
   \<not> is_absolute (example_env [(''/proj/lib/b'', 7, Some 1)]) ''lib/b'' \<and>
   find_valid_path (example_env [(''/proj/lib/b'', 7, Some 1)]) ''/proj'' ''lib/b'' = ''/proj/lib/b'' \<and>
   fst (handleDependencies (example_env [(''/proj/lib/b'', 7, Some 1)])
      (fst (resolveExternals (example_env [(''/proj/lib/b'', 7, Some 1)])
        (addUseNode ''lib/b'' (addUseNode ''/proj/lib/b''
           (new_FileModule ''/proj'' ''/proj/a.scad'' ()))))) []) = Inr 7 \<and>
   externalDict (fst (snd (handleDependencies (example_env [(''/proj/lib/b'', 7, Some 1)])
      (fst (resolveExternals (example_env [(''/proj/lib/b'', 7, Some 1)])
        (addUseNode ''lib/b'' (addUseNode ''/proj/lib/b''
           (new_FileModule ''/proj'' ''/proj/a.scad'' ()))))) []))) =
     [(''/proj/lib/b'', UseNode ''/proj/lib/b'')] \<and>
   map_of (externalDict (fst (snd (handleDependencies (example_env [(''/proj/lib/b'', 7, Some 1)])
      (fst (resolveExternals (example_env [(''/proj/lib/b'', 7, Some 1)])
        (addUseNode ''lib/b'' (addUseNode ''/proj/lib/b''
           (new_FileModule ''/proj'' ''/proj/a.scad'' ()))))) [])))) ''/proj/lib/b'' \<noteq>
     Some (UseNode ''lib/b'')"
  by code_simp

end
